theory Spec2Isabelle
  imports Complex_Main "HOL-Library.Word" "HOL-Library.Signed_Division"
    "HOL-Library.Monad_Syntax" "HOL-Library.Log_Nat"
begin

unbundle bit_operations_syntax

section \<open>The datetime overlay: data model\<close>

text \<open>
  The program is a single C file, \<^verbatim>\<open>src/main.c\<close>. Its fixed-width integers are
  words; C's \<^verbatim>\<open>int\<close> and \<^verbatim>\<open>long\<close> are mathematical integers together with an
  explicit range check where the C arithmetic could leave the type (signed overflow is
  undefined in C, so such a computation has no result: \<open>None\<close>). A finite \<^verbatim>\<open>double\<close>
  is the real number it denotes, and the arithmetic on \<^verbatim>\<open>double\<close> rounds as IEEE 754
  binary64 does (section Layout).
\<close>

type_synonym uint8_t = "8 word"
type_synonym uint16_t = "16 word"
type_synonym int16_t = "16 word"   \<comment> \<open>read with \<open>sint\<close>\<close>
type_synonym uint32_t = "32 word"

definition INT_MIN :: int where "INT_MIN = - (2 ^ 31)"
definition INT_MAX :: int where "INT_MAX = 2 ^ 31 - 1"

text \<open>\<^verbatim>\<open>struct timespec\<close>, as \<^verbatim>\<open>clock_gettime(CLOCK_REALTIME, &ts)\<close> fills it.\<close>

record timespec =
  tv_sec :: int
  tv_nsec :: int

section \<open>Sleeping until the next second\<close>

text \<open>
  \<^verbatim>\<open>ms_to_next_second\<close> (main.c, lines 169 to 175). The clock reading is the argument.
  C's \<^verbatim>\<open>/\<close> and \<^verbatim>\<open>%\<close> on \<^verbatim>\<open>long\<close> truncate towards zero: \<open>sdiv\<close> and \<open>smod\<close>.
\<close>

definition ms_to_next_second :: "timespec \<Rightarrow> int" where
  "ms_to_next_second ts =
     (let ms = tv_nsec ts sdiv 1000000;
          rem = 1000 - (ms smod 1000)
      in if rem = 1000 then 0 else rem)"

text \<open>
  The specification's \<open>nowMillis\<close>: the wall-clock instant in whole milliseconds since
  the epoch, which is the resolution at which the code reads the clock.
\<close>

definition nowMillis :: "timespec \<Rightarrow> int" where
  "nowMillis ts = tv_sec ts * 1000 + tv_nsec ts div 1000000"

text \<open>What POSIX promises of a clock reading.\<close>

definition valid_timespec :: "timespec \<Rightarrow> bool" where
  "valid_timespec ts \<longleftrightarrow> 0 \<le> tv_nsec ts \<and> tv_nsec ts < 1000000000"

section \<open>Formatting the time\<close>

text \<open>
  \<^verbatim>\<open>struct tm\<close>, as \<^verbatim>\<open>localtime_r\<close> fills it: the broken-down local time. Only the
  fields the two format strings read are kept.
\<close>

record tm =
  tm_sec :: int
  tm_min :: int
  tm_hour :: int
  tm_mday :: int
  tm_mon :: int
  tm_year :: int

text \<open>
  \<^verbatim>\<open>strftime\<close> is the C library's. It is modelled as ISO C describes it, for the
  conversion specifiers the program uses: \<^verbatim>\<open>%H %M %S %m %d\<close> are decimal numbers of at
  least two digits, zero-padded; \<^verbatim>\<open>%Y\<close> is the year as a decimal number. Any other
  character of the format is copied. When the result and its terminating zero do not
  fit the buffer, the buffer's contents are indeterminate: \<open>None\<close>.
\<close>

definition digit_char :: "nat \<Rightarrow> char" where
  "digit_char d = ''0123456789'' ! (d mod 10)"

fun dec :: "nat \<Rightarrow> string" where
  "dec n = (if n < 10 then [digit_char n] else dec (n div 10) @ [digit_char (n mod 10)])"

declare dec.simps [simp del]

definition dec_int :: "int \<Rightarrow> string" where
  "dec_int i = (if i < 0 then CHR ''-'' # dec (nat (- i)) else dec (nat i))"

definition pad2 :: "int \<Rightarrow> string" where
  "pad2 i = (if 0 \<le> i \<and> i < 10 then CHR ''0'' # dec_int i else dec_int i)"

definition strftime_conv :: "char \<Rightarrow> tm \<Rightarrow> string" where
  "strftime_conv c lt =
     (if c = CHR ''H'' then pad2 (tm_hour lt)
      else if c = CHR ''M'' then pad2 (tm_min lt)
      else if c = CHR ''S'' then pad2 (tm_sec lt)
      else if c = CHR ''Y'' then dec_int (tm_year lt + 1900)
      else if c = CHR ''m'' then pad2 (tm_mon lt + 1)
      else if c = CHR ''d'' then pad2 (tm_mday lt)
      else [CHR ''%'', c])"

fun strftime_fmt :: "string \<Rightarrow> tm \<Rightarrow> string" where
  "strftime_fmt [] lt = []"
| "strftime_fmt [c] lt = [c]"
| "strftime_fmt (c # d # cs) lt =
     (if c = CHR ''%'' then strftime_conv d lt @ strftime_fmt cs lt
      else c # strftime_fmt (d # cs) lt)"

definition strftime :: "nat \<Rightarrow> string \<Rightarrow> tm \<Rightarrow> string option" where
  "strftime bufsz fmt lt =
     (let s = strftime_fmt fmt lt in if length s < bufsz then Some s else None)"

text \<open>
  \<^verbatim>\<open>now_timestr\<close> (main.c, lines 161 to 167). The argument \<open>lt\<close> is what
  \<^verbatim>\<open>localtime_r\<close> made of \<^verbatim>\<open>time(NULL)\<close>: the instant in the host's local timezone.
  The result is the contents of \<^verbatim>\<open>buf\<close>.
\<close>

definition now_timestr :: "tm \<Rightarrow> nat \<Rightarrow> bool \<Rightarrow> string option" where
  "now_timestr lt bufsz time_only =
     (let fmt = (if time_only then ''%H:%M:%S'' else ''%Y-%m-%d %H:%M:%S'')
      in strftime bufsz fmt lt)"

section \<open>Options, screen and metrics\<close>

record options_t =
  font_family :: string
  font_size_px :: real
  margin_px :: uint32_t
  fg_r :: real
  fg_g :: real
  fg_b :: real
  bg_r :: real
  bg_g :: real
  bg_b :: real
  time_only :: bool
  debug :: bool

text \<open>Of \<^verbatim>\<open>xcb_screen_t\<close> the loop reads the width only.\<close>

record xcb_screen_t =
  width_in_pixels :: uint16_t
  height_in_pixels :: uint16_t

text \<open>The fields of cairo's extents that the loop reads.\<close>

record cairo_text_extents_t =
  x_bearing :: real
  x_advance :: real

record cairo_font_extents_t =
  ascent :: real
  descent :: real

section \<open>Layout\<close>

text \<open>
  Arithmetic on \<^verbatim>\<open>double\<close>: IEEE 754 binary64, rounding to nearest, ties to even. A
  finite double is \<open>m * 2 ^ k\<close> with \<open>\<bar>m\<bar> < 2 ^ 53\<close> and \<open>- 1074 \<le> k\<close>. The exact result
  \<open>x\<close> of an operation is rounded on the grid of its binade: with
  \<open>2 ^ e \<le> \<bar>x\<bar> < 2 ^ (e + 1)\<close> (and \<open>e = - 1022\<close> below the normal numbers) the step
  of the grid is \<open>2 ^ (e - 52)\<close>. \<open>binary64_exponent\<close> computes \<open>e\<close> from the length
  in bits of the integral part of \<open>\<bar>x\<bar>\<close>, or of \<open>1 / \<bar>x\<bar>\<close> below 1. The metrics
  cairo hands over are finite. A sum beyond the largest double is infinite in C; here
  it is a number from \<open>2 ^ 1024\<close> on, and its conversion to \<^verbatim>\<open>int\<close> has no result
  either way.
\<close>

definition binary64_exponent :: "real \<Rightarrow> int" where
  "binary64_exponent x =
     (let a = \<bar>x\<bar>
      in if 1 \<le> a then bitlen \<lfloor>a\<rfloor> - 1
         else max (- 1022) (- bitlen (\<lceil>1 / a\<rceil> - 1)))"

definition round_to_even :: "real \<Rightarrow> int" where
  "round_to_even r =
     (let f = \<lfloor>r\<rfloor>; d = r - of_int f
      in if d < 1 / 2 then f
         else if 1 / 2 < d then f + 1
         else if even f then f else f + 1)"

definition round_binary64 :: "real \<Rightarrow> real" where
  "round_binary64 x =
     (if x = 0 then 0
      else let u = 2 powi (binary64_exponent x - 52)
           in of_int (round_to_even (x / u)) * u)"

definition double_add :: "real \<Rightarrow> real \<Rightarrow> real" where
  "double_add a b = round_binary64 (a + b)"

definition double_sub :: "real \<Rightarrow> real \<Rightarrow> real" where
  "double_sub a b = round_binary64 (a - b)"

text \<open>
  C's conversion of a \<^verbatim>\<open>double\<close> to \<^verbatim>\<open>int\<close> drops the fraction (towards zero) and is
  undefined when the integral part is no \<^verbatim>\<open>int\<close>. Addition and subtraction of two
  \<^verbatim>\<open>int\<close> are undefined when the result is no \<^verbatim>\<open>int\<close>.
\<close>

definition double_to_int :: "real \<Rightarrow> int option" where
  "double_to_int d =
     (let t = (if 0 \<le> d then \<lfloor>d\<rfloor> else \<lceil>d\<rceil>)
      in if INT_MIN \<le> t \<and> t \<le> INT_MAX then Some t else None)"

definition int_add :: "int \<Rightarrow> int \<Rightarrow> int option" where
  "int_add a b = (if INT_MIN \<le> a + b \<and> a + b \<le> INT_MAX then Some (a + b) else None)"

definition int_sub :: "int \<Rightarrow> int \<Rightarrow> int option" where
  "int_sub a b = (if INT_MIN \<le> a - b \<and> a - b \<le> INT_MAX then Some (a - b) else None)"

text \<open>
  main.c, lines 353 to 358: the size of the window. The two sums of lines 353 and 354
  are sums of \<^verbatim>\<open>double\<close>, each addition rounded. \<^verbatim>\<open>pad * 2\<close> is computed in
  \<^verbatim>\<open>int\<close> (at most 131070); the casts to \<^verbatim>\<open>uint16_t\<close> keep the low 16 bits.
\<close>

record window_size =
  text_w :: int
  text_h :: int
  pad :: uint16_t
  win_w :: uint16_t
  win_h :: uint16_t

definition compute_size ::
  "options_t \<Rightarrow> cairo_text_extents_t \<Rightarrow> cairo_font_extents_t \<Rightarrow> window_size option" where
  "compute_size opt te fe =
     do {
       tw \<leftarrow> double_to_int (double_add (x_advance te) 0.5);
       th \<leftarrow> double_to_int (double_add (double_add (ascent fe) (descent fe)) 0.5);
       let p = (ucast (margin_px opt) :: uint16_t);
       w \<leftarrow> int_add tw (uint p * 2);
       h \<leftarrow> int_add th (uint p * 2);
       Some \<lparr>text_w = tw, text_h = th, pad = p,
             win_w = word_of_int w, win_h = word_of_int h\<rparr>
     }"

text \<open>
  main.c, lines 360 and 361: the position. \<^verbatim>\<open>(int)opt.margin_px\<close> reads the 32 bits
  as a signed number (as gcc defines the conversion); the casts to \<^verbatim>\<open>int16_t\<close> keep the
  low 16 bits.
\<close>

record window_position =
  new_x :: int16_t
  new_y :: int16_t

definition compute_position ::
  "options_t \<Rightarrow> xcb_screen_t \<Rightarrow> uint16_t \<Rightarrow> window_position option" where
  "compute_position opt screen w =
     do {
       x \<leftarrow> int_sub (uint (width_in_pixels screen) - uint w) (sint (margin_px opt));
       Some \<lparr>new_x = word_of_int x, new_y = ucast (margin_px opt)\<rparr>
     }"

text \<open>The layout step: lines 353 to 361.\<close>

definition compute_geometry ::
  "options_t \<Rightarrow> xcb_screen_t \<Rightarrow> cairo_text_extents_t \<Rightarrow> cairo_font_extents_t
     \<Rightarrow> (window_size \<times> window_position) option" where
  "compute_geometry opt screen te fe =
     do {
       sz \<leftarrow> compute_size opt te fe;
       pos \<leftarrow> compute_position opt screen (win_w sz);
       Some (sz, pos)
     }"

section \<open>The render loop\<close>

text \<open>
  Constants of the system headers: the event codes and configure masks of the X11 core
  protocol (\<^verbatim>\<open>xcb/xproto.h\<close>) and Linux's \<^verbatim>\<open>EINTR\<close>.
\<close>

definition XCB_EXPOSE :: uint8_t where "XCB_EXPOSE = 12"
definition XCB_VISIBILITY_NOTIFY :: uint8_t where "XCB_VISIBILITY_NOTIFY = 15"
definition XCB_CONFIGURE_NOTIFY :: uint8_t where "XCB_CONFIGURE_NOTIFY = 22"

definition XCB_CONFIG_WINDOW_X :: uint16_t where "XCB_CONFIG_WINDOW_X = 1"
definition XCB_CONFIG_WINDOW_Y :: uint16_t where "XCB_CONFIG_WINDOW_Y = 2"
definition XCB_CONFIG_WINDOW_WIDTH :: uint16_t where "XCB_CONFIG_WINDOW_WIDTH = 4"
definition XCB_CONFIG_WINDOW_HEIGHT :: uint16_t where "XCB_CONFIG_WINDOW_HEIGHT = 8"
definition XCB_CONFIG_WINDOW_STACK_MODE :: uint16_t where "XCB_CONFIG_WINDOW_STACK_MODE = 64"
definition XCB_STACK_MODE_ABOVE :: uint32_t where "XCB_STACK_MODE_ABOVE = 0"

definition EINTR :: int where "EINTR = 4"

record xcb_generic_event_t =
  response_type :: uint8_t

text \<open>\<^verbatim>\<open>event_name\<close> (main.c, lines 109 to 116).\<close>

definition event_name :: "uint8_t \<Rightarrow> string" where
  "event_name rt =
     (if rt = XCB_EXPOSE then ''Expose''
      else if rt = XCB_VISIBILITY_NOTIFY then ''VisibilityNotify''
      else if rt = XCB_CONFIGURE_NOTIFY then ''ConfigureNotify''
      else ''Other'')"

text \<open>
  What the loop sends out, in the order of the calls: the requests to the X server and
  to cairo, the blocking \<^verbatim>\<open>poll\<close> with its timeout, and the debug lines on stderr (with
  the values they print). \<^verbatim>\<open>measure_cr\<close> is the offscreen context, \<^verbatim>\<open>cr\<close> the one that
  draws on the window.
\<close>

datatype cairo_ctx = Measure_cr | Cr

datatype request =
    Poll int
  | Debug_event string uint8_t
  | Cairo_select_font_face cairo_ctx string
  | Cairo_set_font_size cairo_ctx real
  | Xcb_configure_window uint16_t "uint32_t list"
  | Debug_tick string int int uint16_t uint16_t int16_t int16_t
  | Cairo_xcb_surface_create int int
  | Cairo_create
  | Cairo_set_source_rgb real real real
  | Cairo_paint
  | Cairo_move_to real real
  | Cairo_show_text string
  | Cairo_surface_flush
  | Cairo_destroy
  | Cairo_surface_destroy
  | Xcb_flush

text \<open>
  What the environment answers during one iteration of the loop: the clock reading
  inside \<^verbatim>\<open>ms_to_next_second\<close>, the return value of \<^verbatim>\<open>poll\<close> and \<^verbatim>\<open>errno\<close> after it,
  the events that reach the connection during the iteration, the local time at the
  redraw, and cairo's measurements.
\<close>

record iteration_io =
  clock_realtime :: timespec
  poll_ret :: int
  poll_errno :: int
  arrivals :: "xcb_generic_event_t list"
  local_time :: tm
  text_extents :: "string \<Rightarrow> cairo_text_extents_t"
  font_extents :: cairo_font_extents_t

text \<open>
  What outlives an iteration: the loop's variable \<^verbatim>\<open>last_str\<close>, and the events of the
  connection \<^verbatim>\<open>cconn\<close> that \<^verbatim>\<open>xcb_poll_for_event\<close> has not handed out yet (it hands
  them out first in, first out, and returns \<^verbatim>\<open>NULL\<close> when there is none).
\<close>

record loop_state =
  last_str :: string
  pending :: "xcb_generic_event_t list"

text \<open>
  The body of the draining \<^verbatim>\<open>while\<close> (lines 324 to 331) on the pair of
  \<^verbatim>\<open>need_redraw\<close> and the output so far, and the loop itself (line 323).
\<close>

definition event_code :: "xcb_generic_event_t \<Rightarrow> uint8_t" where
  "event_code ev = response_type ev AND NOT 0x80"

definition drain_event ::
  "options_t \<Rightarrow> xcb_generic_event_t \<Rightarrow> bool \<times> request list \<Rightarrow> bool \<times> request list" where
  "drain_event opt ev s =
     (let rt = event_code ev;
          out = (if debug opt then snd s @ [Debug_event (event_name rt) rt] else snd s);
          need_redraw =
            (if rt = XCB_EXPOSE \<or> rt = XCB_VISIBILITY_NOTIFY \<or> rt = XCB_CONFIGURE_NOTIFY
             then True else fst s)
      in (need_redraw, out))"

fun drain ::
  "options_t \<Rightarrow> xcb_generic_event_t list \<Rightarrow> bool \<times> request list \<Rightarrow> bool \<times> request list" where
  "drain opt [] s = s"
| "drain opt (ev # evs) s = drain opt evs (drain_event opt ev s)"

text \<open>The tick (lines 335 to 337).\<close>

definition tick :: "int \<Rightarrow> bool \<Rightarrow> bool" where
  "tick pr need_redraw = (if pr = 0 then True else need_redraw)"

text \<open>
  The redraw (lines 340 to 402): the requests it issues and the new \<^verbatim>\<open>last_str\<close>
  (\<^verbatim>\<open>strncpy\<close> of at most 63 characters). The two measuring calls on \<^verbatim>\<open>measure_cr\<close>
  only read; their answers are the \<open>iteration_io\<close>'s.
\<close>

definition config_mask :: uint16_t where
  "config_mask = XCB_CONFIG_WINDOW_X OR XCB_CONFIG_WINDOW_Y OR XCB_CONFIG_WINDOW_WIDTH
                 OR XCB_CONFIG_WINDOW_HEIGHT OR XCB_CONFIG_WINDOW_STACK_MODE"

definition redraw ::
  "options_t \<Rightarrow> xcb_screen_t \<Rightarrow> iteration_io \<Rightarrow> (request list \<times> string) option" where
  "redraw opt screen io =
     do {
       nowbuf \<leftarrow> now_timestr (local_time io) 64 (time_only opt);
       let te = text_extents io nowbuf;
       let fe = font_extents io;
       (sz, pos) \<leftarrow> compute_geometry opt screen te fe;
       let cfg = [scast (new_x pos), scast (new_y pos), ucast (win_w sz), ucast (win_h sz),
                  XCB_STACK_MODE_ABOVE];
       let text_x = double_sub (real_of_int (uint (pad sz))) (x_bearing te);
       let text_y = double_add (real_of_int (uint (pad sz))) (ascent fe);
       Some
        ([Cairo_select_font_face Measure_cr (font_family opt),
          Cairo_set_font_size Measure_cr (font_size_px opt),
          Xcb_configure_window config_mask cfg]
         @ (if debug opt
            then [Debug_tick nowbuf (text_w sz) (text_h sz) (win_w sz) (win_h sz)
                    (new_x pos) (new_y pos)]
            else [])
         @ [Cairo_xcb_surface_create (uint (win_w sz)) (uint (win_h sz)),
            Cairo_create,
            Cairo_set_source_rgb (bg_r opt) (bg_g opt) (bg_b opt),
            Cairo_paint,
            Cairo_select_font_face Cr (font_family opt),
            Cairo_set_font_size Cr (font_size_px opt),
            Cairo_set_source_rgb (fg_r opt) (fg_g opt) (fg_b opt),
            Cairo_move_to text_x text_y,
            Cairo_show_text nowbuf,
            Cairo_surface_flush,
            Cairo_destroy,
            Cairo_surface_destroy,
            Xcb_flush],
         take 63 nowbuf)
     }"

text \<open>
  One iteration of \<^verbatim>\<open>for (;;)\<close> (lines 313 to 404). \<^verbatim>\<open>(int)timeout_ms\<close> keeps the
  low 32 bits. The draining loop empties the connection's queue; \<^verbatim>\<open>continue\<close> leaves
  it as it is.
\<close>

definition long_to_int :: "int \<Rightarrow> int" where
  "long_to_int l = sint (word_of_int l :: 32 word)"

definition loop_iteration ::
  "options_t \<Rightarrow> xcb_screen_t \<Rightarrow> iteration_io \<Rightarrow> loop_state
     \<Rightarrow> (request list \<times> loop_state) option" where
  "loop_iteration opt screen io st =
     (let timeout_ms = ms_to_next_second (clock_realtime io);
          pr = poll_ret io;
          queue = pending st @ arrivals io
      in if pr < 0 \<and> poll_errno io = EINTR
         then Some ([Poll (long_to_int timeout_ms)], st\<lparr>pending := queue\<rparr>)
         else
           let drained = drain opt queue (False, [Poll (long_to_int timeout_ms)]);
               need_redraw = tick pr (fst drained)
           in if need_redraw
              then do {
                (reqs, nowbuf) \<leftarrow> redraw opt screen io;
                Some (snd drained @ reqs, \<lparr>last_str = nowbuf, pending = []\<rparr>)
              }
              else Some (snd drained, st\<lparr>pending := []\<rparr>))"

text \<open>
  The loop never ends by itself. A run is observed on a finite prefix: one
  \<open>iteration_io\<close> for each iteration, in order.
\<close>

fun main_loop ::
  "options_t \<Rightarrow> xcb_screen_t \<Rightarrow> iteration_io list \<Rightarrow> loop_state
     \<Rightarrow> (request list \<times> loop_state) option" where
  "main_loop opt screen [] st = Some ([], st)"
| "main_loop opt screen (io # ios) st =
     do {
       (reqs, st') \<leftarrow> loop_iteration opt screen io st;
       (reqs', st'') \<leftarrow> main_loop opt screen ios st';
       Some (reqs @ reqs', st'')
     }"

text \<open>The options and state \<^verbatim>\<open>main\<close> starts from (lines 178 to 186 and 311).\<close>

definition default_options :: options_t where
  "default_options =
     \<lparr>font_family = ''DejaVu Sans Mono'', font_size_px = 16, margin_px = 8,
      fg_r = 1, fg_g = 1, fg_b = 1, bg_r = 0, bg_g = 0, bg_b = 0,
      time_only = False, debug = False\<rparr>"

definition initial_state :: loop_state where
  "initial_state = \<lparr>last_str = [], pending = []\<rparr>"

text \<open>
  Reading a trace of requests. A redraw is counted by its \<^verbatim>\<open>cairo_paint\<close>.
  \<open>sized_before_painted\<close> walks a trace with the size of the last configure request
  that sets position, size and stack-above (none at first) and whether a surface of that
  size is open: every surface is created
  at the size last configured, and painting and drawing happen on such a surface only.
\<close>

definition redraws :: "request list \<Rightarrow> nat" where
  "redraws reqs = length (filter (\<lambda>r. r = Cairo_paint) reqs)"

fun configured_size :: "uint16_t \<Rightarrow> uint32_t list \<Rightarrow> (int \<times> int) option" where
  "configured_size msk [x, y, w, h, stack] =
     (if msk = config_mask \<and> stack = XCB_STACK_MODE_ABOVE then Some (uint w, uint h)
      else None)"
| "configured_size msk cfg = None"

fun sized_before_painted :: "(int \<times> int) option \<Rightarrow> bool \<Rightarrow> request list \<Rightarrow> bool" where
  "sized_before_painted cur surf [] = True"
| "sized_before_painted cur surf (Xcb_configure_window msk cfg # rs) =
     sized_before_painted (configured_size msk cfg) False rs"
| "sized_before_painted cur surf (Cairo_xcb_surface_create w h # rs) =
     (cur = Some (w, h) \<and> sized_before_painted cur True rs)"
| "sized_before_painted cur surf (Cairo_paint # rs) =
     (surf \<and> sized_before_painted cur surf rs)"
| "sized_before_painted cur surf (Cairo_show_text s # rs) =
     (surf \<and> sized_before_painted cur surf rs)"
| "sized_before_painted cur surf (Cairo_surface_destroy # rs) =
     sized_before_painted cur False rs"
| "sized_before_painted cur surf (Poll t # rs) =
     sized_before_painted None False rs"
| "sized_before_painted cur surf (r # rs) = sized_before_painted cur surf rs"

text \<open>
  The requests that give the window or a drawing surface its geometry, and the requests
  that put pixels on the surface.
\<close>

fun is_geometry_request :: "request \<Rightarrow> bool" where
  "is_geometry_request (Xcb_configure_window msk cfg) = True"
| "is_geometry_request (Cairo_xcb_surface_create w h) = True"
| "is_geometry_request r = False"

fun is_drawing_request :: "request \<Rightarrow> bool" where
  "is_drawing_request Cairo_paint = True"
| "is_drawing_request (Cairo_show_text s) = True"
| "is_drawing_request r = False"

section \<open>Vocabulary of the specification\<close>

text \<open>
  The condition of line 328 on an event: it asks for a redraw.
\<close>

definition redraw_event :: "xcb_generic_event_t \<Rightarrow> bool" where
  "redraw_event ev \<longleftrightarrow>
     event_code ev = XCB_EXPOSE \<or> event_code ev = XCB_VISIBILITY_NOTIFY
     \<or> event_code ev = XCB_CONFIGURE_NOTIFY"

text \<open>
  An operation on \<^verbatim>\<open>double\<close> is exact when its rounded result is the exact one.
\<close>

definition exact_binary64 :: "real \<Rightarrow> bool" where
  "exact_binary64 x \<longleftrightarrow> round_binary64 x = x"

text \<open>
  The specification's \<open>HH\<close>, \<open>MM\<close>, \<open>SS\<close>, \<open>DD\<close> and \<open>YYYY\<close>: exactly two and
  exactly four decimal digits. \<open>valid_tm\<close> is a broken-down time of the calendar, in a
  year of four digits.
\<close>

definition two_digits :: "int \<Rightarrow> string" where
  "two_digits i = [digit_char (nat i div 10), digit_char (nat i mod 10)]"

definition four_digits :: "int \<Rightarrow> string" where
  "four_digits i =
     [digit_char (nat i div 1000), digit_char (nat i div 100 mod 10),
      digit_char (nat i div 10 mod 10), digit_char (nat i mod 10)]"

definition valid_tm :: "tm \<Rightarrow> bool" where
  "valid_tm lt \<longleftrightarrow>
     0 \<le> tm_sec lt \<and> tm_sec lt \<le> 60 \<and> 0 \<le> tm_min lt \<and> tm_min lt \<le> 59
     \<and> 0 \<le> tm_hour lt \<and> tm_hour lt \<le> 23 \<and> 1 \<le> tm_mday lt \<and> tm_mday lt \<le> 31
     \<and> 0 \<le> tm_mon lt \<and> tm_mon lt \<le> 11
     \<and> 1000 \<le> tm_year lt + 1900 \<and> tm_year lt + 1900 \<le> 9999"

text \<open>
  A screen and an iteration to run the loop on: a full HD screen, the local time
  2024-01-15 09:05:03 a quarter of a second past the second, a wait that timed out with
  no event, and a font in which the string advances 120 pixels.
\<close>

definition example_screen :: xcb_screen_t where
  "example_screen = \<lparr>width_in_pixels = 1920, height_in_pixels = 1080\<rparr>"

definition example_io :: iteration_io where
  "example_io =
     \<lparr>clock_realtime = \<lparr>tv_sec = 1705309503, tv_nsec = 250000000\<rparr>,
      poll_ret = 0, poll_errno = 0, arrivals = [],
      local_time =
        \<lparr>tm_sec = 3, tm_min = 5, tm_hour = 9, tm_mday = 15, tm_mon = 0, tm_year = 124\<rparr>,
      text_extents = (\<lambda>s. \<lparr>x_bearing = 1, x_advance = 120\<rparr>),
      font_extents = \<lparr>ascent = 14, descent = 4\<rparr>\<rparr>"

section \<open>The sleep until the next second\<close>

lemma sdiv_nonneg_eq_div:
  fixes a b :: int
  assumes "0 \<le> a" "0 < b"
  shows "a sdiv b = a div b"
  using assms by (simp add: signed_divide_int_def sgn_if)

lemma smod_nonneg_eq_mod:
  fixes a b :: int
  assumes "0 \<le> a" "0 < b"
  shows "a smod b = a mod b"
  using assms by (simp add: signed_modulo_int_def sgn_if)

lemma ms_of_valid_timespec:
  assumes "valid_timespec ts"
  shows "0 \<le> tv_nsec ts sdiv 1000000" and "tv_nsec ts sdiv 1000000 \<le> 999"
    and "tv_nsec ts sdiv 1000000 = tv_nsec ts div 1000000"
proof -
  from assms have r: "0 \<le> tv_nsec ts" "tv_nsec ts < 1000000000"
    by (simp_all add: valid_timespec_def)
  show e: "tv_nsec ts sdiv 1000000 = tv_nsec ts div 1000000"
    using r by (simp add: sdiv_nonneg_eq_div)
  from r show "0 \<le> tv_nsec ts sdiv 1000000" unfolding e by simp
  from r show "tv_nsec ts sdiv 1000000 \<le> 999" unfolding e by simp
qed

lemma ms_to_next_second_eq:
  assumes "valid_timespec ts"
  shows "ms_to_next_second ts =
           (if tv_nsec ts div 1000000 = 0 then 0 else 1000 - tv_nsec ts div 1000000)"
proof -
  let ?ms = "tv_nsec ts div 1000000"
  have ms: "0 \<le> ?ms" "?ms \<le> 999" "tv_nsec ts sdiv 1000000 = ?ms"
    using ms_of_valid_timespec [OF assms] by simp_all
  have "?ms smod 1000 = ?ms mod 1000"
    using ms(1) by (simp add: smod_nonneg_eq_mod)
  also have "\<dots> = ?ms" using ms(1,2) by simp
  finally have m: "?ms smod 1000 = ?ms" .
  show ?thesis
    by (simp add: ms_to_next_second_def Let_def ms(3) m)
qed

lemma nowMillis_mod:
  assumes "valid_timespec ts"
  shows "nowMillis ts mod 1000 = tv_nsec ts div 1000000"
proof -
  have ms: "0 \<le> tv_nsec ts div 1000000" "tv_nsec ts div 1000000 \<le> 999"
    using ms_of_valid_timespec [OF assms] by simp_all
  have "nowMillis ts mod 1000 = (tv_nsec ts div 1000000) mod 1000"
    by (simp add: nowMillis_def)
  also have "\<dots> = tv_nsec ts div 1000000" using ms by simp
  finally show ?thesis .
qed

text \<open>
  The code drops what the clock shows below the millisecond. In nanoseconds, the instant
  plus the returned wait lies in the first millisecond that follows a second boundary.
\<close>

lemma ms_to_next_second_wakeup:
  assumes "valid_timespec ts"
  shows "(tv_sec ts * 1000000000 + tv_nsec ts + ms_to_next_second ts * 1000000) mod 1000000000
           = tv_nsec ts mod 1000000"
proof -
  let ?ms = "tv_nsec ts div 1000000" and ?r = "tv_nsec ts mod 1000000"
  have ms: "0 \<le> ?ms" "?ms \<le> 999"
    using ms_of_valid_timespec [OF assms] by simp_all
  have r: "0 \<le> ?r" "?r < 1000000" by simp_all
  have n: "tv_nsec ts = ?ms * 1000000 + ?r" by simp
  have v: "ms_to_next_second ts = (if ?ms = 0 then 0 else 1000 - ?ms)"
    by (rule ms_to_next_second_eq [OF assms])
  have "(tv_sec ts * 1000000000 + tv_nsec ts + ms_to_next_second ts * 1000000) mod 1000000000
      = (tv_nsec ts + ms_to_next_second ts * 1000000) mod 1000000000"
    by (simp add: add.assoc)
  also have "\<dots> = ?r"
  proof (cases "?ms = 0")
    case True
    then have "tv_nsec ts = ?r" using n by simp
    then have "tv_nsec ts + ms_to_next_second ts * 1000000 = ?r"
      using v True by simp
    then show ?thesis using r by simp
  next
    case False
    have "tv_nsec ts + ms_to_next_second ts * 1000000
        = ?ms * 1000000 + ?r + (1000 - ?ms) * 1000000"
      using v False n by simp
    also have "\<dots> = 1000000000 + ?r" by (simp add: algebra_simps)
    finally show ?thesis using r by simp
  qed
  finally show ?thesis .
qed

text \<open>
  C1. For every wall-clock instant, \<^verbatim>\<open>ms_to_next_second\<close> returns a value in
  \<open>[0, 999]\<close>, and the instant (in the milliseconds the code reads it in, \<open>nowMillis\<close>)
  plus that value is an exact second boundary; the value is
  \<open>1000 - (nowMillis mod 1000)\<close>, normalized to 0 when the instant is on a boundary.
\<close>

theorem ms_to_next_second_boundary:
  assumes "valid_timespec ts"
  shows "0 \<le> ms_to_next_second ts \<and> ms_to_next_second ts \<le> 999
       \<and> (nowMillis ts + ms_to_next_second ts) mod 1000 = 0
       \<and> ms_to_next_second ts =
           (if nowMillis ts mod 1000 = 0 then 0 else 1000 - nowMillis ts mod 1000)"
proof -
  let ?ms = "tv_nsec ts div 1000000"
  have ms: "0 \<le> ?ms" "?ms \<le> 999"
    using ms_of_valid_timespec [OF assms] by simp_all
  have v: "ms_to_next_second ts = (if ?ms = 0 then 0 else 1000 - ?ms)"
    by (rule ms_to_next_second_eq [OF assms])
  have n: "nowMillis ts mod 1000 = ?ms"
    by (rule nowMillis_mod [OF assms])
  have b: "(nowMillis ts + ms_to_next_second ts) mod 1000 = 0"
  proof -
    have "(nowMillis ts + ms_to_next_second ts) mod 1000
        = (nowMillis ts mod 1000 + ms_to_next_second ts) mod 1000"
      by (simp add: mod_add_left_eq)
    also have "\<dots> = (?ms + (if ?ms = 0 then 0 else 1000 - ?ms)) mod 1000"
      by (simp only: n v)
    also have "\<dots> = 0" by simp
    finally show ?thesis .
  qed
  from ms v n b show ?thesis by simp
qed

theorem ms_to_next_second_boundary_witness:
  "valid_timespec \<lparr>tv_sec = 1705309503, tv_nsec = 250000000\<rparr>
   \<and> ms_to_next_second \<lparr>tv_sec = 1705309503, tv_nsec = 250000000\<rparr> = 750
   \<and> (nowMillis \<lparr>tv_sec = 1705309503, tv_nsec = 250000000\<rparr> + 750) mod 1000 = 0"
proof -
  have h: "valid_timespec \<lparr>tv_sec = 1705309503, tv_nsec = 250000000\<rparr>"
    by (simp add: valid_timespec_def)
  have n: "nowMillis \<lparr>tv_sec = 1705309503, tv_nsec = 250000000\<rparr> = 1705309503250"
    by (simp add: nowMillis_def)
  show ?thesis
    using h ms_to_next_second_boundary [OF h] by (simp add: n)
qed

section \<open>The time formatter\<close>

lemma dec_1: "n < 10 \<Longrightarrow> dec n = [digit_char n]"
  by (subst dec.simps) simp

lemma dec_2: "10 \<le> n \<Longrightarrow> n < 100 \<Longrightarrow> dec n = [digit_char (n div 10), digit_char (n mod 10)]"
  by (subst dec.simps) (simp add: dec_1)

lemma dec_3:
  "100 \<le> n \<Longrightarrow> n < 1000 \<Longrightarrow>
   dec n = [digit_char (n div 100), digit_char (n div 10 mod 10), digit_char (n mod 10)]"
  by (subst dec.simps) (simp add: dec_2 div_mult2_eq [symmetric])

lemma dec_4:
  "1000 \<le> n \<Longrightarrow> n < 10000 \<Longrightarrow>
   dec n = [digit_char (n div 1000), digit_char (n div 100 mod 10),
            digit_char (n div 10 mod 10), digit_char (n mod 10)]"
  by (subst dec.simps) (simp add: dec_3 div_mult2_eq [symmetric])

lemma pad2_two_digits:
  assumes "0 \<le> i" "i < 100"
  shows "pad2 i = two_digits i"
proof (cases "i < 10")
  case True
  with assms show ?thesis
    by (simp add: pad2_def dec_int_def two_digits_def dec_1 digit_char_def)
next
  case False
  with assms have "10 \<le> nat i" "nat i < 100" by simp_all
  then have "dec (nat i) = [digit_char (nat i div 10), digit_char (nat i mod 10)]"
    by (rule dec_2)
  with False assms show ?thesis
    by (simp add: pad2_def dec_int_def two_digits_def)
qed

lemma dec_int_four_digits:
  assumes "1000 \<le> i" "i < 10000"
  shows "dec_int i = four_digits i"
proof -
  from assms have "1000 \<le> nat i" "nat i < 10000" by simp_all
  then have "dec (nat i) = [digit_char (nat i div 1000), digit_char (nat i div 100 mod 10),
            digit_char (nat i div 10 mod 10), digit_char (nat i mod 10)]"
    by (rule dec_4)
  with assms show ?thesis by (simp add: dec_int_def four_digits_def)
qed

lemma strftime_time_only:
  "strftime_fmt ''%H:%M:%S'' lt
     = pad2 (tm_hour lt) @ '':'' @ pad2 (tm_min lt) @ '':'' @ pad2 (tm_sec lt)"
  by (simp add: strftime_conv_def)

lemma strftime_date_time:
  "strftime_fmt ''%Y-%m-%d %H:%M:%S'' lt
     = dec_int (tm_year lt + 1900) @ ''-'' @ pad2 (tm_mon lt + 1) @ ''-'' @ pad2 (tm_mday lt)
       @ '' '' @ pad2 (tm_hour lt) @ '':'' @ pad2 (tm_min lt) @ '':'' @ pad2 (tm_sec lt)"
  by (simp add: strftime_conv_def)

lemma now_timestr_valid:
  assumes "valid_tm lt"
  shows "now_timestr lt 64 True
           = Some (two_digits (tm_hour lt) @ '':'' @ two_digits (tm_min lt) @ '':''
                   @ two_digits (tm_sec lt))"
    and "now_timestr lt 64 False
           = Some (four_digits (tm_year lt + 1900) @ ''-'' @ two_digits (tm_mon lt + 1) @ ''-''
                   @ two_digits (tm_mday lt) @ '' '' @ two_digits (tm_hour lt) @ '':''
                   @ two_digits (tm_min lt) @ '':'' @ two_digits (tm_sec lt))"
proof -
  from assms have p: "pad2 (tm_hour lt) = two_digits (tm_hour lt)"
    "pad2 (tm_min lt) = two_digits (tm_min lt)" "pad2 (tm_sec lt) = two_digits (tm_sec lt)"
    "pad2 (tm_mon lt + 1) = two_digits (tm_mon lt + 1)"
    "pad2 (tm_mday lt) = two_digits (tm_mday lt)"
    by (simp_all add: valid_tm_def pad2_two_digits)
  from assms have y: "dec_int (tm_year lt + 1900) = four_digits (tm_year lt + 1900)"
    by (simp add: valid_tm_def dec_int_four_digits)
  show "now_timestr lt 64 True
           = Some (two_digits (tm_hour lt) @ '':'' @ two_digits (tm_min lt) @ '':''
                   @ two_digits (tm_sec lt))"
    unfolding now_timestr_def strftime_def Let_def if_True strftime_time_only p
    by (simp add: two_digits_def)
  show "now_timestr lt 64 False
           = Some (four_digits (tm_year lt + 1900) @ ''-'' @ two_digits (tm_mon lt + 1) @ ''-''
                   @ two_digits (tm_mday lt) @ '' '' @ two_digits (tm_hour lt) @ '':''
                   @ two_digits (tm_min lt) @ '':'' @ two_digits (tm_sec lt))"
    unfolding now_timestr_def strftime_def Let_def if_False strftime_date_time p y
    by (simp add: two_digits_def four_digits_def)
qed

lemmas timestr_eval =
  now_timestr_def strftime_def strftime_conv_def pad2_def dec_int_def dec.simps digit_char_def

lemma now_timestr_2024_01_15:
  "now_timestr \<lparr>tm_sec = 3, tm_min = 5, tm_hour = 9, tm_mday = 15, tm_mon = 0, tm_year = 124\<rparr>
     64 False = Some ''2024-01-15 09:05:03''"
  "now_timestr \<lparr>tm_sec = 3, tm_min = 5, tm_hour = 9, tm_mday = 15, tm_mon = 0, tm_year = 124\<rparr>
     64 True = Some ''09:05:03''"
  by (simp_all add: timestr_eval)

text \<open>
  C6. The time formatter, given the local broken-down time of an instant and the
  \<open>timeOnly\<close> flag, produces \<open>HH:MM:SS\<close> when \<open>timeOnly\<close> is true and
  \<open>YYYY-MM-DD HH:MM:SS\<close> otherwise; for the local instant 2024-01-15T09:05:03 it yields
  exactly \<open>2024-01-15 09:05:03\<close> (\<open>timeOnly\<close> false) and exactly \<open>09:05:03\<close>
  (\<open>timeOnly\<close> true).
\<close>

theorem now_timestr_formats:
  "(valid_tm lt \<longrightarrow>
      now_timestr lt 64 True
        = Some (two_digits (tm_hour lt) @ '':'' @ two_digits (tm_min lt) @ '':''
                @ two_digits (tm_sec lt))
      \<and> now_timestr lt 64 False
        = Some (four_digits (tm_year lt + 1900) @ ''-'' @ two_digits (tm_mon lt + 1) @ ''-''
                @ two_digits (tm_mday lt) @ '' '' @ two_digits (tm_hour lt) @ '':''
                @ two_digits (tm_min lt) @ '':'' @ two_digits (tm_sec lt)))
   \<and> now_timestr
        \<lparr>tm_sec = 3, tm_min = 5, tm_hour = 9, tm_mday = 15, tm_mon = 0, tm_year = 124\<rparr>
        64 False = Some ''2024-01-15 09:05:03''
   \<and> now_timestr
        \<lparr>tm_sec = 3, tm_min = 5, tm_hour = 9, tm_mday = 15, tm_mon = 0, tm_year = 124\<rparr>
        64 True = Some ''09:05:03''"
  using now_timestr_valid [of lt] now_timestr_2024_01_15 by blast

theorem now_timestr_formats_witness:
  "valid_tm \<lparr>tm_sec = 59, tm_min = 30, tm_hour = 23, tm_mday = 31, tm_mon = 11, tm_year = 99\<rparr>
   \<and> now_timestr
        \<lparr>tm_sec = 59, tm_min = 30, tm_hour = 23, tm_mday = 31, tm_mon = 11, tm_year = 99\<rparr>
        64 True = Some ''23:30:59''
   \<and> now_timestr
        \<lparr>tm_sec = 59, tm_min = 30, tm_hour = 23, tm_mday = 31, tm_mon = 11, tm_year = 99\<rparr>
        64 False = Some ''1999-12-31 23:30:59''"
proof -
  let ?lt = "\<lparr>tm_sec = 59, tm_min = 30, tm_hour = 23, tm_mday = 31, tm_mon = 11, tm_year = 99\<rparr>"
  have h: "valid_tm ?lt" by (simp add: valid_tm_def)
  show ?thesis
    using now_timestr_formats [of ?lt] h
    by (simp add: two_digits_def four_digits_def digit_char_def)
qed

section \<open>Arithmetic on doubles\<close>

text \<open>
  What the layout needs of the rounding: \<open>binary64_exponent\<close> is the binade of its
  argument; rounding keeps the sign, is monotone, and leaves every double
  \<open>m * 2 ^ k\<close> (\<open>\<bar>m\<bar> < 2 ^ 53\<close>, \<open>- 1074 \<le> k\<close>) as it is.
\<close>

lemma bitlen_pos_bounds:
  assumes "0 < n"
  shows "1 \<le> bitlen n"
    and "(2::real) powi (bitlen n - 1) \<le> of_int n"
    and "of_int n < (2::real) powi (bitlen n)"
proof -
  from bitlen_bounds [OF assms]
  have a: "2 ^ nat (bitlen n - 1) \<le> n" and b: "n < 2 ^ nat (bitlen n)" by simp_all
  show 1: "1 \<le> bitlen n"
    using assms bitlen_eq_zero_iff [of n] bitlen_nonneg [of n] by linarith
  have "(2::real) powi (bitlen n - 1) = of_int (2 ^ nat (bitlen n - 1))"
    using 1 by (simp add: power_int_nonneg_exp)
  also have "\<dots> \<le> of_int n" using a by (simp only: of_int_le_iff)
  finally show "(2::real) powi (bitlen n - 1) \<le> of_int n" .
  have "real_of_int n < of_int (2 ^ nat (bitlen n))" using b by (simp only: of_int_less_iff)
  also have "\<dots> = (2::real) powi (bitlen n)"
    using 1 by (simp add: power_int_nonneg_exp)
  finally show "of_int n < (2::real) powi (bitlen n)" .
qed

lemma one_over_powi: "1 / (2::real) powi k = 2 powi (- k)"
  by (simp add: power_int_minus divide_inverse)

lemma binary64_exponent_abs: "binary64_exponent \<bar>x\<bar> = binary64_exponent x"
  by (simp add: binary64_exponent_def)

lemma binary64_exponent_minus: "binary64_exponent (- x) = binary64_exponent x"
  by (simp add: binary64_exponent_def)

lemma binary64_exponent_bounds:
  assumes "0 < a"
  shows "- 1022 \<le> binary64_exponent a"
    and "a < 2 powi (binary64_exponent a + 1)"
    and "- 1022 < binary64_exponent a \<Longrightarrow> 2 powi (binary64_exponent a) \<le> a"
proof -
  let ?e = "binary64_exponent a"
  have "- 1022 \<le> ?e \<and> a < 2 powi (?e + 1) \<and> (- 1022 < ?e \<longrightarrow> 2 powi ?e \<le> a)"
  proof (cases "1 \<le> a")
    case True
    let ?n = "\<lfloor>a\<rfloor>"
    have n: "0 < ?n" using True by simp
    have e: "?e = bitlen ?n - 1"
      using True assms by (simp add: binary64_exponent_def)
    note b = bitlen_pos_bounds [OF n]
    have "(2::real) powi ?e \<le> of_int ?n" using b(2) by (simp add: e)
    also have "\<dots> \<le> a" by simp
    finally have lo: "2 powi ?e \<le> a" .
    have "?n + 1 \<le> 2 ^ nat (bitlen ?n)"
      using bitlen_bounds [OF n] by simp
    then have "real_of_int (?n + 1) \<le> of_int (2 ^ nat (bitlen ?n))"
      by (simp only: of_int_le_iff)
    also have "\<dots> = (2::real) powi (bitlen ?n)" using b(1) by (simp add: power_int_nonneg_exp)
    finally have "real_of_int ?n + 1 \<le> 2 powi (?e + 1)" by (simp add: e)
    moreover have "a < real_of_int ?n + 1" by linarith
    ultimately have hi: "a < 2 powi (?e + 1)" by linarith
    from b(1) e lo hi show ?thesis by simp
  next
    case False
    let ?y = "1 / a"
    let ?m = "\<lceil>?y\<rceil> - 1"
    have y: "1 < ?y" using False assms by simp
    then have m: "0 < ?m" by linarith
    note b = bitlen_pos_bounds [OF m]
    have e: "?e = max (- 1022) (- bitlen ?m)"
      using False assms by (simp add: binary64_exponent_def)
    have "real_of_int ?m < ?y" by linarith
    with b(2) have "2 powi (bitlen ?m - 1) < ?y" by linarith
    then have "a * 2 powi (bitlen ?m - 1) < 1"
      using assms by (simp add: field_simps)
    then have "a < 1 / 2 powi (bitlen ?m - 1)"
      by (simp add: field_simps)
    also have "\<dots> = (2::real) powi (- (bitlen ?m - 1))"
      by (rule one_over_powi)
    finally have hi0: "a < 2 powi (- bitlen ?m + 1)" by simp
    have "- bitlen ?m + 1 \<le> ?e + 1" by (simp add: e)
    then have "(2::real) powi (- bitlen ?m + 1) \<le> 2 powi (?e + 1)"
      by (intro power_int_increasing) simp_all
    with hi0 have hi: "a < 2 powi (?e + 1)" by linarith
    have "?m + 1 \<le> 2 ^ nat (bitlen ?m)"
      using bitlen_bounds [OF m] by simp
    then have "real_of_int (?m + 1) \<le> of_int (2 ^ nat (bitlen ?m))"
      by (simp only: of_int_le_iff)
    also have "\<dots> = (2::real) powi (bitlen ?m)" using b(1) by (simp add: power_int_nonneg_exp)
    finally have "real_of_int ?m + 1 \<le> 2 powi (bitlen ?m)" by simp
    moreover have "?y \<le> real_of_int ?m + 1" by simp
    ultimately have "?y \<le> 2 powi (bitlen ?m)" by linarith
    then have "1 \<le> a * 2 powi (bitlen ?m)"
      using assms by (simp add: field_simps)
    then have "1 / 2 powi (bitlen ?m) \<le> a"
      by (simp add: field_simps)
    then have lo0: "2 powi (- bitlen ?m) \<le> a"
      by (simp only: one_over_powi)
    have lo: "2 powi ?e \<le> a" if "- 1022 < ?e"
    proof -
      from that e have "?e = - bitlen ?m" by linarith
      with lo0 show ?thesis by simp
    qed
    have "- 1022 \<le> ?e" by (simp add: e)
    with hi lo show ?thesis by blast
  qed
  then show "- 1022 \<le> ?e" and "a < 2 powi (?e + 1)"
    and "- 1022 < ?e \<Longrightarrow> 2 powi ?e \<le> a"
    by blast+
qed

lemma round_to_even_cases:
  "round_to_even r = \<lfloor>r\<rfloor> \<or> round_to_even r = \<lfloor>r\<rfloor> + 1"
  by (simp add: round_to_even_def Let_def)

lemma round_to_even_of_int [simp]: "round_to_even (of_int n) = n"
  by (simp add: round_to_even_def)

lemma round_to_even_ge:
  assumes "of_int n \<le> r"
  shows "n \<le> round_to_even r"
proof -
  from assms have "n \<le> \<lfloor>r\<rfloor>" by (simp add: le_floor_iff)
  with round_to_even_cases [of r] show ?thesis by linarith
qed

lemma round_to_even_le:
  assumes "r \<le> of_int n"
  shows "round_to_even r \<le> n"
proof (cases "r = of_int n")
  case True
  then show ?thesis by simp
next
  case False
  with assms have "r < of_int n" by simp
  then have "\<lfloor>r\<rfloor> < n" by (simp add: floor_less_iff)
  with round_to_even_cases [of r] show ?thesis by linarith
qed

lemma round_to_even_mono:
  assumes "r \<le> s"
  shows "round_to_even r \<le> round_to_even s"
proof (cases "\<lfloor>r\<rfloor> = \<lfloor>s\<rfloor>")
  case True
  have "r - of_int \<lfloor>r\<rfloor> \<le> s - of_int \<lfloor>s\<rfloor>" using assms True by simp
  then show ?thesis
    by (auto simp: round_to_even_def Let_def True)
next
  case False
  from assms have "\<lfloor>r\<rfloor> \<le> \<lfloor>s\<rfloor>" by (rule floor_mono)
  with False have "\<lfloor>r\<rfloor> + 1 \<le> \<lfloor>s\<rfloor>" by simp
  moreover have "round_to_even r \<le> \<lfloor>r\<rfloor> + 1"
    using round_to_even_cases [of r] by linarith
  moreover have "\<lfloor>s\<rfloor> \<le> round_to_even s"
    using round_to_even_cases [of s] by linarith
  ultimately show ?thesis by linarith
qed

lemma round_binary64_nonneg:
  assumes "0 \<le> x"
  shows "0 \<le> round_binary64 x"
proof (cases "x = 0")
  case True
  then show ?thesis by (simp add: round_binary64_def)
next
  case False
  let ?u = "(2::real) powi (binary64_exponent x - 52)"
  have u: "0 < ?u" by simp
  have "0 \<le> x / ?u" using assms u by simp
  then have "real_of_int 0 \<le> x / ?u" by simp
  then have "0 \<le> round_to_even (x / ?u)" by (rule round_to_even_ge)
  then show ?thesis
    using False u by (simp add: round_binary64_def Let_def)
qed

lemma powi_split: "(2::real) powi (e + 1) = 2 ^ 53 * 2 powi (e - 52)"
proof -
  have "e + 1 = 53 + (e - 52)" by simp
  then have "(2::real) powi (e + 1) = 2 powi (53 + (e - 52))" by (rule arg_cong)
  also have "\<dots> = 2 powi 53 * 2 powi (e - 52)"
    by (rule power_int_add) simp
  finally show ?thesis by simp
qed

lemma powi_split0: "(2::real) powi e = 2 ^ 52 * 2 powi (e - 52)"
proof -
  have "e = 52 + (e - 52)" by simp
  then have "(2::real) powi e = 2 powi (52 + (e - 52))" by (rule arg_cong)
  also have "\<dots> = 2 powi 52 * 2 powi (e - 52)"
    by (rule power_int_add) simp
  finally show ?thesis by simp
qed

lemma round_binary64_upper:
  assumes "0 < x"
  shows "round_binary64 x \<le> 2 powi (binary64_exponent x + 1)"
proof -
  let ?e = "binary64_exponent x"
  let ?u = "(2::real) powi (?e - 52)"
  have u: "0 < ?u" by simp
  have R: "round_binary64 x = real_of_int (round_to_even (x / ?u)) * ?u"
    using assms by (simp add: round_binary64_def Let_def)
  have "x < 2 powi (?e + 1)" by (rule binary64_exponent_bounds(2) [OF assms])
  also have "\<dots> = 2 ^ 53 * ?u" by (rule powi_split)
  finally have "x < 2 ^ 53 * ?u" .
  then have "x / ?u \<le> 2 ^ 53" using u by (simp add: field_simps)
  then have "x / ?u \<le> real_of_int (2 ^ 53)" by simp
  then have "round_to_even (x / ?u) \<le> 2 ^ 53" by (rule round_to_even_le)
  then have "real_of_int (round_to_even (x / ?u)) \<le> real_of_int (2 ^ 53)"
    by (simp only: of_int_le_iff)
  then have "real_of_int (round_to_even (x / ?u)) * ?u \<le> 2 ^ 53 * ?u"
    using u by (simp add: mult_right_mono)
  also have "2 ^ 53 * ?u = 2 powi (?e + 1)" by (rule powi_split [symmetric])
  finally show ?thesis by (simp only: R)
qed

lemma round_binary64_lower:
  assumes "0 < x" "- 1022 < binary64_exponent x"
  shows "2 powi (binary64_exponent x) \<le> round_binary64 x"
proof -
  let ?e = "binary64_exponent x"
  let ?u = "(2::real) powi (?e - 52)"
  have u: "0 < ?u" by simp
  have R: "round_binary64 x = real_of_int (round_to_even (x / ?u)) * ?u"
    using assms by (simp add: round_binary64_def Let_def)
  have "2 ^ 52 * ?u = 2 powi ?e" by (rule powi_split0 [symmetric])
  also have "\<dots> \<le> x" by (rule binary64_exponent_bounds(3) [OF assms])
  finally have "2 ^ 52 * ?u \<le> x" .
  then have "2 ^ 52 \<le> x / ?u" using u by (simp add: field_simps)
  then have "real_of_int (2 ^ 52) \<le> x / ?u" by simp
  then have "2 ^ 52 \<le> round_to_even (x / ?u)" by (rule round_to_even_ge)
  then have "real_of_int (2 ^ 52) \<le> real_of_int (round_to_even (x / ?u))"
    by (simp only: of_int_le_iff)
  then have "2 ^ 52 * ?u \<le> real_of_int (round_to_even (x / ?u)) * ?u"
    using u by (simp add: mult_right_mono)
  then have "2 ^ 52 * ?u \<le> round_binary64 x" by (simp only: R)
  moreover have "2 powi ?e = 2 ^ 52 * ?u" by (rule powi_split0)
  ultimately show ?thesis by (simp only:)
qed

lemma binary64_exponent_mono:
  assumes "0 < x" "x \<le> y"
  shows "binary64_exponent x \<le> binary64_exponent y"
proof (rule ccontr)
  assume "\<not> ?thesis"
  then have lt: "binary64_exponent y + 1 \<le> binary64_exponent x" by simp
  have y: "0 < y" using assms by simp
  have "- 1022 < binary64_exponent x"
    using binary64_exponent_bounds(1) [OF y] lt by linarith
  then have "2 powi (binary64_exponent x) \<le> x"
    by (rule binary64_exponent_bounds(3) [OF assms(1)])
  moreover have "(2::real) powi (binary64_exponent y + 1) \<le> 2 powi (binary64_exponent x)"
    using lt by (intro power_int_increasing) simp_all
  moreover have "y < 2 powi (binary64_exponent y + 1)"
    by (rule binary64_exponent_bounds(2) [OF y])
  ultimately show False using assms(2) by linarith
qed

lemma round_binary64_mono_pos:
  assumes "0 < x" "x \<le> y"
  shows "round_binary64 x \<le> round_binary64 y"
proof -
  have y: "0 < y" using assms by simp
  let ?ex = "binary64_exponent x" and ?ey = "binary64_exponent y"
  have le: "?ex \<le> ?ey" by (rule binary64_exponent_mono [OF assms])
  show ?thesis
  proof (cases "?ex = ?ey")
    case True
    let ?u = "(2::real) powi (?ey - 52)"
    have u: "0 < ?u" by simp
    have "x / ?u \<le> y / ?u" using assms(2) u by (simp add: divide_right_mono)
    then have "round_to_even (x / ?u) \<le> round_to_even (y / ?u)"
      by (rule round_to_even_mono)
    then have "real_of_int (round_to_even (x / ?u)) \<le> real_of_int (round_to_even (y / ?u))"
      by (simp only: of_int_le_iff)
    then have "real_of_int (round_to_even (x / ?u)) * ?u
                 \<le> real_of_int (round_to_even (y / ?u)) * ?u"
      using u by (simp add: mult_right_mono)
    then show ?thesis
      using assms(1) y by (simp add: round_binary64_def Let_def True)
  next
    case False
    with le have lt: "?ex + 1 \<le> ?ey" by simp
    have "- 1022 < ?ey"
      using binary64_exponent_bounds(1) [OF assms(1)] lt by linarith
    then have "2 powi ?ey \<le> round_binary64 y"
      by (rule round_binary64_lower [OF y])
    moreover have "(2::real) powi (?ex + 1) \<le> 2 powi ?ey"
      using lt by (intro power_int_increasing) simp_all
    moreover have "round_binary64 x \<le> 2 powi (?ex + 1)"
      by (rule round_binary64_upper [OF assms(1)])
    ultimately show ?thesis by linarith
  qed
qed

lemma round_binary64_exact:
  assumes x: "x = of_int m * 2 powi k" and m: "\<bar>m\<bar> < 2 ^ 53" and k: "- 1074 \<le> k"
  shows "round_binary64 x = x"
proof (cases "x = 0")
  case True
  then show ?thesis by (simp add: round_binary64_def)
next
  case False
  let ?e = "binary64_exponent x"
  let ?u = "(2::real) powi (?e - 52)"
  have a: "0 < \<bar>x\<bar>" using False by simp
  have ea: "binary64_exponent \<bar>x\<bar> = ?e" by (rule binary64_exponent_abs)
  have ax: "\<bar>x\<bar> = of_int \<bar>m\<bar> * 2 powi k"
    by (simp add: x abs_mult)
  have ke: "?e - 52 \<le> k"
  proof (rule ccontr)
    assume "\<not> ?thesis"
    then have lt: "k + 53 \<le> ?e" by simp
    with k have "- 1022 < ?e" by simp
    then have "2 powi ?e \<le> \<bar>x\<bar>"
      using binary64_exponent_bounds(3) [OF a] by (simp only: ea)
    moreover have "\<bar>x\<bar> < 2 powi (k + 53)"
    proof -
      have "real_of_int \<bar>m\<bar> < real_of_int (2 ^ 53)" using m by (simp only: of_int_less_iff)
      then have "real_of_int \<bar>m\<bar> * 2 powi k < 2 ^ 53 * 2 powi k"
        by (simp add: mult_strict_right_mono)
      also have "\<dots> = 2 powi 53 * 2 powi k" by simp
      also have "\<dots> = 2 powi (53 + k)" by (rule power_int_add [symmetric]) simp
      finally show ?thesis by (simp add: ax add.commute)
    qed
    moreover have "(2::real) powi (k + 53) \<le> 2 powi ?e"
      using lt by (intro power_int_increasing) simp_all
    ultimately show False by linarith
  qed
  define d where "d = nat (k - (?e - 52))"
  define u where "u = (2::real) powi (?e - 52)"
  have kd: "k = (?e - 52) + int d" using ke by (simp add: d_def)
  have "(2::real) powi k = 2 powi ((?e - 52) + int d)" using kd by (rule arg_cong)
  also have "\<dots> = 2 powi (?e - 52) * 2 powi (int d)" by (rule power_int_add) simp
  finally have pk: "(2::real) powi k = u * 2 ^ d" by (simp add: u_def)
  have u: "u \<noteq> 0" by (simp add: u_def)
  have xu: "x = of_int m * (u * 2 ^ d)"
    by (subst pk [symmetric]) (rule x)
  have "x / u = of_int m * (u * 2 ^ d) / u"
    using xu by (rule arg_cong)
  also have "\<dots> = real_of_int (m * 2 ^ d)" using u by simp
  finally have q: "x / u = real_of_int (m * 2 ^ d)" .
  have "round_binary64 x = real_of_int (round_to_even (x / u)) * u"
    using False by (simp add: round_binary64_def Let_def u_def)
  also have "\<dots> = real_of_int (m * 2 ^ d) * u"
    by (simp only: q round_to_even_of_int)
  also have "\<dots> = x / u * u" by (simp only: q)
  also have "\<dots> = x" using u by simp
  finally show ?thesis .
qed

lemma double_add_nonneg:
  assumes "0 \<le> a + b"
  shows "0 \<le> double_add a b"
  using assms by (simp add: double_add_def round_binary64_nonneg)

lemma double_add_mono:
  assumes "0 < a + c" "a \<le> b"
  shows "double_add a c \<le> double_add b c"
  using assms by (simp add: double_add_def round_binary64_mono_pos)

lemma double_add_exact:
  assumes "exact_binary64 (a + b)"
  shows "double_add a b = a + b"
  using assms by (simp add: double_add_def exact_binary64_def)

text \<open>
  Every dyadic number with a numerator below \<open>2 ^ 53\<close> is a double: so are the whole
  numbers of pixels and their halves, quarters and so on up to \<open>2 ^ 53\<close> steps.
\<close>

lemma exact_binary64_dyadic:
  assumes "\<bar>n\<bar> < 2 ^ 53" "j \<le> 1074"
  shows "exact_binary64 (of_int n / 2 ^ j)"
proof -
  have e: "real_of_int n / 2 ^ j = of_int n * 2 powi (- int j)"
    by (simp add: power_int_minus divide_inverse)
  have k: "- 1074 \<le> - int j" using assms(2) by simp
  have "round_binary64 (of_int n / 2 ^ j) = of_int n / 2 ^ j"
    by (rule round_binary64_exact [OF e assms(1) k])
  then show ?thesis by (simp add: exact_binary64_def)
qed

lemmas binary64_eval =
  double_add_def double_sub_def exact_binary64_def round_binary64_def binary64_exponent_def
  round_to_even_def compute_bitlen power_int_minus

section \<open>The layout\<close>

lemma signed_take_bit_small:
  fixes k :: int
  assumes "0 \<le> k" "k \<le> 32767" "15 \<le> n"
  shows "signed_take_bit n k = k"
proof (rule signed_take_bit_int_eq_self)
  have "(2::int) ^ 15 \<le> 2 ^ n" using assms(3) by (intro power_increasing) simp_all
  then have p: "(32768::int) \<le> 2 ^ n" by simp
  show "- (2 ^ n) \<le> k" using assms(1) p by linarith
  show "k < 2 ^ n" using assms(2) p by linarith
qed

lemma sint_margin:
  assumes "uint (m :: 32 word) \<le> 32767"
  shows "sint m = uint m"
proof -
  have "sint m = signed_take_bit 31 (uint m)" by (simp add: sint_uint)
  also have "\<dots> = uint m"
    using assms by (intro signed_take_bit_small) simp_all
  finally show ?thesis .
qed

lemma sint_word_of_int_16:
  assumes "- 32768 \<le> x" "x \<le> 32767"
  shows "sint (word_of_int x :: 16 word) = x"
proof -
  have "sint (word_of_int x :: 16 word) = signed_take_bit 15 x"
    by (simp add: sint_sbintrunc')
  also have "\<dots> = x"
    using assms by (intro signed_take_bit_int_eq_self) simp_all
  finally show ?thesis .
qed

lemma sint_ucast_margin:
  assumes "uint (m :: 32 word) \<le> 32767"
  shows "sint (ucast m :: 16 word) = uint m"
proof -
  have "sint (ucast m :: 16 word) = signed_take_bit 15 (uint m)"
    by (simp add: signed_ucast_eq)
  also have "\<dots> = uint m"
    using assms by (intro signed_take_bit_small) simp_all
  finally show ?thesis .
qed

lemma two_mod: "(tw + 2 * (m mod 65536)) mod 65536 = (tw + 2 * m) mod (65536::int)"
  by (metis mod_add_right_eq mod_mult_right_eq)

lemma uint_ucast_32_16: "uint (ucast (m :: 32 word) :: 16 word) = uint m mod 65536"
  by (simp add: unsigned_ucast_eq take_bit_eq_mod)

lemma uint_word_of_int_16: "uint (word_of_int k :: 16 word) = k mod 65536"
  by (simp add: uint_word_of_int)

lemma compute_size_Some:
  assumes "compute_size opt te fe = Some sz"
  shows "double_to_int (double_add (x_advance te) 0.5) = Some (text_w sz)"
    and "double_to_int (double_add (double_add (ascent fe) (descent fe)) 0.5) = Some (text_h sz)"
    and "pad sz = ucast (margin_px opt)"
    and "win_w sz = word_of_int (text_w sz + uint (pad sz) * 2)"
    and "win_h sz = word_of_int (text_h sz + uint (pad sz) * 2)"
  using assms
  by (auto simp: compute_size_def int_add_def Let_def split: bind_splits if_splits)

lemma double_to_int_range:
  assumes "double_to_int d = Some t"
  shows "INT_MIN \<le> t" and "t \<le> INT_MAX"
  using assms by (auto simp: double_to_int_def Let_def split: if_splits)

lemma double_to_int_nonneg:
  assumes "0 \<le> d" "double_to_int d = Some t"
  shows "t = \<lfloor>d\<rfloor>"
  using assms by (auto simp: double_to_int_def Let_def split: if_splits)

lemma double_to_int_defined:
  assumes "0 \<le> d" "\<lfloor>d\<rfloor> \<le> INT_MAX"
  shows "double_to_int d = Some \<lfloor>d\<rfloor>"
proof -
  have "0 \<le> \<lfloor>d\<rfloor>" using assms(1) by simp
  then have "INT_MIN \<le> \<lfloor>d\<rfloor>" by (simp add: INT_MIN_def)
  then show ?thesis
    using assms by (simp add: double_to_int_def Let_def)
qed

lemma int_add_defined:
  assumes "INT_MIN \<le> a + b" "a + b \<le> INT_MAX"
  shows "int_add a b = Some (a + b)"
  using assms by (simp add: int_add_def)

lemma window_size_wraps_sum:
  assumes tw: "double_to_int (double_add (x_advance te) 0.5) = Some tw"
      and th: "double_to_int (double_add (double_add (ascent fe) (descent fe)) 0.5) = Some th"
      and w: "tw + 2 * (uint (margin_px opt) mod 65536) \<le> INT_MAX"
      and h: "th + 2 * (uint (margin_px opt) mod 65536) \<le> INT_MAX"
  shows "\<exists>sz. compute_size opt te fe = Some sz
         \<and> text_w sz = tw \<and> text_h sz = th
         \<and> uint (pad sz) = uint (margin_px opt) mod 65536
         \<and> uint (win_w sz) = (tw + 2 * (uint (margin_px opt) mod 65536)) mod 65536
         \<and> uint (win_h sz) = (th + 2 * (uint (margin_px opt) mod 65536)) mod 65536
         \<and> uint (win_w sz) = (tw + 2 * uint (margin_px opt)) mod 65536
         \<and> uint (win_h sz) = (th + 2 * uint (margin_px opt)) mod 65536"
proof -
  let ?p = "ucast (margin_px opt) :: uint16_t"
  have p: "uint ?p = uint (margin_px opt) mod 65536"
    by (rule uint_ucast_32_16)
  have p0: "0 \<le> uint ?p" by simp
  have "INT_MIN \<le> tw" "INT_MIN \<le> th"
    using double_to_int_range(1) [OF tw] double_to_int_range(1) [OF th] by simp_all
  with p0 have lo: "INT_MIN \<le> tw + uint ?p * 2" "INT_MIN \<le> th + uint ?p * 2"
    by linarith+
  have hi: "tw + uint ?p * 2 \<le> INT_MAX" "th + uint ?p * 2 \<le> INT_MAX"
    using w h by (simp_all add: p)
  have aw: "int_add tw (uint ?p * 2) = Some (tw + uint ?p * 2)"
    by (rule int_add_defined [OF lo(1) hi(1)])
  have ah: "int_add th (uint ?p * 2) = Some (th + uint ?p * 2)"
    by (rule int_add_defined [OF lo(2) hi(2)])
  define wv where "wv = tw + uint ?p * 2"
  define hv where "hv = th + uint ?p * 2"
  let ?sz = "\<lparr>text_w = tw, text_h = th, pad = ?p,
              win_w = word_of_int wv, win_h = word_of_int hv\<rparr>"
  have c: "compute_size opt te fe = Some ?sz"
    using tw th aw ah by (simp add: compute_size_def Let_def wv_def hv_def)
  have ww: "uint (win_w ?sz) = wv mod 65536" and hh: "uint (win_h ?sz) = hv mod 65536"
    by (simp_all add: uint_word_of_int_16)
  have wv: "wv = tw + 2 * (uint (margin_px opt) mod 65536)"
    and hv: "hv = th + 2 * (uint (margin_px opt) mod 65536)"
    by (simp_all add: wv_def hv_def p)
  have f1: "text_w ?sz = tw" and f2: "text_h ?sz = th" by simp_all
  have f3: "uint (pad ?sz) = uint (margin_px opt) mod 65536" using p by simp
  have f4: "uint (win_w ?sz) = (tw + 2 * (uint (margin_px opt) mod 65536)) mod 65536"
    by (subst ww) (simp only: wv)
  have f5: "uint (win_h ?sz) = (th + 2 * (uint (margin_px opt) mod 65536)) mod 65536"
    by (subst hh) (simp only: hv)
  have f6: "uint (win_w ?sz) = (tw + 2 * uint (margin_px opt)) mod 65536"
    by (subst f4) (simp only: two_mod)
  have f7: "uint (win_h ?sz) = (th + 2 * uint (margin_px opt)) mod 65536"
    by (subst f5) (simp only: two_mod)
  show ?thesis
    by (rule exI [of _ ?sz]) (intro conjI c f1 f2 f3 f4 f5 f6 f7)
qed


lemmas layout_eval =
  compute_geometry_def compute_position_def compute_size_def double_to_int_def
  int_add_def int_sub_def INT_MIN_def INT_MAX_def default_options_def binary64_eval

text \<open>
  C10. The computed window width and height are truncated to 16-bit unsigned values
  before being applied: for any rounded text width \<open>tw\<close> (height \<open>th\<close>) and margin \<open>m\<close>,
  also with \<open>tw + 2 * m \<ge> 65536\<close> or \<open>m \<ge> 65536\<close> (the padding itself is first truncated
  to 16 bits), the computation has a result, and the window dimensions are
  \<open>tw + 2 * m\<close> and \<open>th + 2 * m\<close> modulo \<open>2 ^ 16\<close>: they wrap, they do not saturate
  or fail. (The sums are computed in \<^verbatim>\<open>int\<close>; they must not leave it.)
\<close>

theorem window_size_wraps_16bit:
  assumes "double_to_int (double_add (x_advance te) 0.5) = Some tw"
      and "double_to_int (double_add (double_add (ascent fe) (descent fe)) 0.5) = Some th"
      and "tw + 2 * (uint (margin_px opt) mod 65536) \<le> INT_MAX"
      and "th + 2 * (uint (margin_px opt) mod 65536) \<le> INT_MAX"
  shows "\<exists>sz. compute_size opt te fe = Some sz
         \<and> text_w sz = tw \<and> text_h sz = th
         \<and> uint (pad sz) = uint (margin_px opt) mod 65536
         \<and> uint (win_w sz) = (tw + 2 * (uint (margin_px opt) mod 65536)) mod 65536
         \<and> uint (win_h sz) = (th + 2 * (uint (margin_px opt) mod 65536)) mod 65536
         \<and> uint (win_w sz) = (tw + 2 * uint (margin_px opt)) mod 65536
         \<and> uint (win_h sz) = (th + 2 * uint (margin_px opt)) mod 65536"
  using assms by (rule window_size_wraps_sum)

theorem window_size_wraps_16bit_witness:
  "double_to_int (double_add (x_advance \<lparr>x_bearing = 0, x_advance = 65520\<rparr>) 0.5) = Some 65520
   \<and> double_to_int
         (double_add (double_add (ascent \<lparr>ascent = 14, descent = 4\<rparr>)
                        (descent \<lparr>ascent = 14, descent = 4\<rparr>)) 0.5)
       = Some 18
   \<and> compute_size (default_options\<lparr>margin_px := 65544\<rparr>)
         \<lparr>x_bearing = 0, x_advance = 65520\<rparr> \<lparr>ascent = 14, descent = 4\<rparr>
       = Some \<lparr>text_w = 65520, text_h = 18, pad = 8, win_w = 0, win_h = 34\<rparr>"
proof -
  let ?te = "\<lparr>x_bearing = 0, x_advance = 65520\<rparr>"
  let ?fe = "\<lparr>ascent = 14, descent = 4\<rparr>"
  let ?opt = "default_options\<lparr>margin_px := 65544\<rparr>"
  have a: "double_to_int (double_add (x_advance ?te) 0.5) = Some 65520"
    by (simp add: layout_eval)
  have b: "double_to_int (double_add (double_add (ascent ?fe) (descent ?fe)) 0.5) = Some 18"
    by (simp add: layout_eval)
  have c: "65520 + 2 * (uint (margin_px ?opt) mod 65536) \<le> INT_MAX"
    by (simp add: layout_eval)
  have d: "18 + 2 * (uint (margin_px ?opt) mod 65536) \<le> INT_MAX"
    by (simp add: layout_eval)
  show ?thesis
    using window_size_wraps_16bit [OF a b c d] a b by (simp add: layout_eval)
qed

lemma compute_size_nonneg:
  assumes x: "0 \<le> x_advance te" and y: "0 \<le> ascent fe + descent fe"
      and w: "\<lfloor>double_add (x_advance te) 0.5\<rfloor> + 2 * uint (margin_px opt) < 65536"
      and h: "\<lfloor>double_add (double_add (ascent fe) (descent fe)) 0.5\<rfloor>
                + 2 * uint (margin_px opt) < 65536"
  shows "\<exists>sz. compute_size opt te fe = Some sz
           \<and> uint (win_w sz) = \<lfloor>double_add (x_advance te) 0.5\<rfloor> + 2 * uint (margin_px opt)
           \<and> uint (win_h sz) = \<lfloor>double_add (double_add (ascent fe) (descent fe)) 0.5\<rfloor>
                                  + 2 * uint (margin_px opt)"
proof -
  let ?m = "uint (margin_px opt)"
  let ?sw = "double_add (x_advance te) 0.5"
  let ?sh = "double_add (double_add (ascent fe) (descent fe)) 0.5"
  have m0: "0 \<le> ?m" by simp
  have sw0: "0 \<le> ?sw" using x by (intro double_add_nonneg) simp
  have "0 \<le> double_add (ascent fe) (descent fe)" using y by (rule double_add_nonneg)
  then have sh0: "0 \<le> ?sh" by (intro double_add_nonneg) simp
  have r0: "0 \<le> \<lfloor>?sw\<rfloor>" "0 \<le> \<lfloor>?sh\<rfloor>" using sw0 sh0 by simp_all
  have m: "?m < 65536" using w m0 r0 by linarith
  have mm: "?m mod 65536 = ?m" using m0 m by simp
  have im: "INT_MAX = 2147483647" by (simp add: INT_MAX_def)
  have "\<lfloor>?sw\<rfloor> \<le> INT_MAX" "\<lfloor>?sh\<rfloor> \<le> INT_MAX"
    unfolding im using w h m0 by linarith+
  then have a: "double_to_int ?sw = Some \<lfloor>?sw\<rfloor>"
    and b: "double_to_int ?sh = Some \<lfloor>?sh\<rfloor>"
    using sw0 sh0 by (simp_all only: double_to_int_defined)
  have c: "\<lfloor>?sw\<rfloor> + 2 * (?m mod 65536) \<le> INT_MAX"
    using w by (simp add: mm INT_MAX_def)
  have d: "\<lfloor>?sh\<rfloor> + 2 * (?m mod 65536) \<le> INT_MAX"
    using h by (simp add: mm INT_MAX_def)
  from window_size_wraps_sum [OF a b c d]
  obtain sz where sz: "compute_size opt te fe = Some sz"
    and ww: "uint (win_w sz) = (\<lfloor>?sw\<rfloor> + 2 * ?m) mod 65536"
    and hh: "uint (win_h sz) = (\<lfloor>?sh\<rfloor> + 2 * ?m) mod 65536"
    by blast
  have "(\<lfloor>?sw\<rfloor> + 2 * ?m) mod 65536 = \<lfloor>?sw\<rfloor> + 2 * ?m"
    using w r0(1) m0 by simp
  moreover have "(\<lfloor>?sh\<rfloor> + 2 * ?m) mod 65536 = \<lfloor>?sh\<rfloor> + 2 * ?m"
    using h r0(2) m0 by simp
  ultimately show ?thesis using sz ww hh by auto
qed

lemma floor_double_add_half_exact:
  assumes "exact_binary64 (d + 0.5)"
  shows "\<lfloor>double_add d 0.5\<rfloor> = round d"
  using double_add_exact [OF assms] by (simp add: round_def)

text \<open>
  C4, as amended. For every text metrics with non-negative extents and every margin for
  which both sums stay below 65536, the computed window width equals
  \<open>\<lfloor>advanceWidth \<oplus> 0.5\<rfloor> + 2 * margin\<close> and the height
  \<open>\<lfloor>(ascent \<oplus> descent) \<oplus> 0.5\<rfloor> + 2 * margin\<close>, where \<open>\<oplus>\<close> is the addition of doubles
  (\<open>double_add\<close>: the exact sum, rounded to the nearest double). Wherever these
  additions are exact, that is \<open>round advanceWidth + 2 * margin\<close> and
  \<open>round (ascent + descent) + 2 * margin\<close> with \<open>round x = \<lfloor>x + 1/2\<rfloor>\<close>: the text
  extents are rounded to the nearest integer pixel, half up, before the padding is
  added; they are not rounded up to the ceiling. In particular with margin 8, advance
  width 120, ascent 14 and descent 4 the result is width 136 and height 34.
\<close>

theorem window_size_rounds_half_up:
  assumes "0 \<le> x_advance te" and "0 \<le> ascent fe + descent fe"
      and "\<lfloor>double_add (x_advance te) 0.5\<rfloor> + 2 * uint (margin_px opt) < 65536"
      and "\<lfloor>double_add (double_add (ascent fe) (descent fe)) 0.5\<rfloor>
             + 2 * uint (margin_px opt) < 65536"
  shows "(\<exists>sz. compute_size opt te fe = Some sz
           \<and> uint (win_w sz) = \<lfloor>double_add (x_advance te) 0.5\<rfloor> + 2 * uint (margin_px opt)
           \<and> uint (win_h sz) = \<lfloor>double_add (double_add (ascent fe) (descent fe)) 0.5\<rfloor>
                                  + 2 * uint (margin_px opt)
           \<and> (exact_binary64 (x_advance te + 0.5)
                \<longrightarrow> uint (win_w sz) = round (x_advance te) + 2 * uint (margin_px opt))
           \<and> (exact_binary64 (ascent fe + descent fe)
                \<and> exact_binary64 (ascent fe + descent fe + 0.5)
                \<longrightarrow> uint (win_h sz) = round (ascent fe + descent fe)
                                          + 2 * uint (margin_px opt)))
       \<and> compute_size (default_options\<lparr>margin_px := 8\<rparr>)
            \<lparr>x_bearing = 0, x_advance = 120\<rparr> \<lparr>ascent = 14, descent = 4\<rparr>
          = Some \<lparr>text_w = 120, text_h = 18, pad = 8, win_w = 136, win_h = 34\<rparr>"
proof -
  let ?m = "uint (margin_px opt)"
  from compute_size_nonneg [OF assms]
  obtain sz where sz: "compute_size opt te fe = Some sz"
    and w: "uint (win_w sz) = \<lfloor>double_add (x_advance te) 0.5\<rfloor> + 2 * ?m"
    and h: "uint (win_h sz) = \<lfloor>double_add (double_add (ascent fe) (descent fe)) 0.5\<rfloor> + 2 * ?m"
    by blast
  have we: "uint (win_w sz) = round (x_advance te) + 2 * ?m"
    if "exact_binary64 (x_advance te + 0.5)"
    using floor_double_add_half_exact [OF that] w by simp
  have he: "uint (win_h sz) = round (ascent fe + descent fe) + 2 * ?m"
    if e: "exact_binary64 (ascent fe + descent fe)"
          "exact_binary64 (ascent fe + descent fe + 0.5)"
  proof -
    have "double_add (ascent fe) (descent fe) = ascent fe + descent fe"
      by (rule double_add_exact [OF e(1)])
    then have "\<lfloor>double_add (double_add (ascent fe) (descent fe)) 0.5\<rfloor>
                 = round (ascent fe + descent fe)"
      using floor_double_add_half_exact [OF e(2)] by simp
    with h show ?thesis by simp
  qed
  have g: "\<exists>sz. compute_size opt te fe = Some sz
           \<and> uint (win_w sz) = \<lfloor>double_add (x_advance te) 0.5\<rfloor> + 2 * ?m
           \<and> uint (win_h sz) = \<lfloor>double_add (double_add (ascent fe) (descent fe)) 0.5\<rfloor>
                                  + 2 * ?m
           \<and> (exact_binary64 (x_advance te + 0.5)
                \<longrightarrow> uint (win_w sz) = round (x_advance te) + 2 * ?m)
           \<and> (exact_binary64 (ascent fe + descent fe)
                \<and> exact_binary64 (ascent fe + descent fe + 0.5)
                \<longrightarrow> uint (win_h sz) = round (ascent fe + descent fe) + 2 * ?m)"
    using sz w h we he by blast
  have e: "compute_size (default_options\<lparr>margin_px := 8\<rparr>)
            \<lparr>x_bearing = 0, x_advance = 120\<rparr> \<lparr>ascent = 14, descent = 4\<rparr>
          = Some \<lparr>text_w = 120, text_h = 18, pad = 8, win_w = 136, win_h = 34\<rparr>"
    by (simp add: layout_eval)
  from g e show ?thesis by (rule conjI)
qed

theorem window_size_rounds_half_up_witness:
  "compute_size default_options
      \<lparr>x_bearing = 0, x_advance = 120.5\<rparr> \<lparr>ascent = 14.25, descent = 4.25\<rparr>
     = Some \<lparr>text_w = 121, text_h = 19, pad = 8, win_w = 137, win_h = 35\<rparr>
   \<and> exact_binary64 (x_advance \<lparr>x_bearing = 0, x_advance = 120.5\<rparr> + 0.5)
   \<and> round (x_advance \<lparr>x_bearing = 0, x_advance = 120.5\<rparr>)
       + 2 * uint (margin_px default_options) = 137
   \<and> round (ascent \<lparr>ascent = 14.25, descent = 4.25\<rparr> + descent \<lparr>ascent = 14.25, descent = 4.25\<rparr>)
       + 2 * uint (margin_px default_options) = 35"
proof -
  let ?te = "\<lparr>x_bearing = 0, x_advance = 120.5\<rparr>"
  let ?fe = "\<lparr>ascent = 14.25, descent = 4.25\<rparr>"
  have "0 \<le> x_advance ?te" "0 \<le> ascent ?fe + descent ?fe"
       "\<lfloor>double_add (x_advance ?te) 0.5\<rfloor> + 2 * uint (margin_px default_options) < 65536"
       "\<lfloor>double_add (double_add (ascent ?fe) (descent ?fe)) 0.5\<rfloor>
          + 2 * uint (margin_px default_options) < 65536"
    by (simp_all add: default_options_def binary64_eval)
  from window_size_rounds_half_up [OF this] show ?thesis
    by (simp add: layout_eval round_def)
qed

text \<open>
  The rounding of the additions shows: the largest double below one half, plus one
  half, is 1 in doubles, and so is the text width; the doubles next to 14.2 and 4.3 add
  up to 18.5 in doubles, and the text height is 19.
\<close>

lemma compute_size_rounds_additions:
  "compute_size default_options
      \<lparr>x_bearing = 0, x_advance = 9007199254740991 / 2 ^ 54\<rparr>
      \<lparr>ascent = 3996944669291315 / 2 ^ 48, descent = 4841369599423283 / 2 ^ 50\<rparr>
     = Some \<lparr>text_w = 1, text_h = 19, pad = 8, win_w = 17, win_h = 35\<rparr>"
  by (simp add: layout_eval)

text \<open>
  C4 as stated fails: an advance width of 120.25 pixels gives the width
  \<open>120 + 16 = 136\<close>, where the ceiling would give 137.
\<close>

theorem window_size_not_ceiling:
  "compute_size default_options
      \<lparr>x_bearing = 0, x_advance = 120.25\<rparr> \<lparr>ascent = 14, descent = 4\<rparr>
     = Some \<lparr>text_w = 120, text_h = 18, pad = 8, win_w = 136, win_h = 34\<rparr>
   \<and> uint (win_w \<lparr>text_w = 120, text_h = 18, pad = 8, win_w = 136, win_h = 34\<rparr>)
       \<noteq> \<lceil>x_advance \<lparr>x_bearing = 0, x_advance = 120.25\<rparr>\<rceil>
           + 2 * uint (margin_px default_options)"
  by (simp add: layout_eval)

lemma text_width_mono:
  assumes "0 \<le> a" "a \<le> b"
      and "double_to_int (double_add a 0.5) = Some s"
      and "double_to_int (double_add b 0.5) = Some t"
  shows "0 \<le> s" and "s \<le> t"
proof -
  have p: "0 < a + 0.5" using assms(1) by simp
  have a0: "0 \<le> double_add a 0.5" using p by (intro double_add_nonneg) simp
  have le: "double_add a 0.5 \<le> double_add b 0.5"
    by (rule double_add_mono [OF p assms(2)])
  have s: "s = \<lfloor>double_add a 0.5\<rfloor>"
    by (rule double_to_int_nonneg [OF a0 assms(3)])
  have "0 \<le> double_add b 0.5" using a0 le by simp
  then have t: "t = \<lfloor>double_add b 0.5\<rfloor>"
    by (rule double_to_int_nonneg [OF _ assms(4)])
  show "0 \<le> s" using a0 by (simp add: s)
  show "s \<le> t" unfolding s t by (rule floor_mono [OF le])
qed

text \<open>
  C9, as amended. The size computation is monotonic in the text advance width as long
  as the width does not wrap: for any two metrics that agree except in advance width,
  with non-negative advance widths, and any fixed margin, if the longer text's rounded
  width plus padding stays below 65536, the longer advance width never yields a smaller
  computed window width.
\<close>

theorem window_width_monotone:
  assumes s1: "compute_size opt te1 fe = Some s1" and s2: "compute_size opt te2 fe = Some s2"
      and nonneg: "0 \<le> x_advance te1" and le: "x_advance te1 \<le> x_advance te2"
      and fits: "text_w s2 + 2 * uint (pad s2) < 65536"
  shows "win_w s1 \<le> win_w s2"
proof -
  note a = compute_size_Some [OF s1] and b = compute_size_Some [OF s2]
  have p: "pad s1 = pad s2" by (simp add: a(3) b(3))
  have t: "0 \<le> text_w s1" "text_w s1 \<le> text_w s2"
    using text_width_mono [OF nonneg le a(1) b(1)] by simp_all
  have p0: "0 \<le> uint (pad s2)" by simp
  let ?w1 = "text_w s1 + uint (pad s2) * 2" and ?w2 = "text_w s2 + uint (pad s2) * 2"
  have r: "0 \<le> ?w1" "?w1 \<le> ?w2" "?w2 < 65536"
    using t p0 fits by linarith+
  have "uint (win_w s1) = ?w1 mod 65536"
    by (subst a(4)) (simp only: uint_word_of_int_16 p)
  also have "\<dots> = ?w1" using r by simp
  finally have u1: "uint (win_w s1) = ?w1" .
  have "uint (win_w s2) = ?w2 mod 65536"
    by (subst b(4)) (simp only: uint_word_of_int_16)
  also have "\<dots> = ?w2" using r by simp
  finally have u2: "uint (win_w s2) = ?w2" .
  show ?thesis using r(2) by (simp add: word_le_def u1 u2)
qed

theorem window_width_monotone_witness:
  "compute_size default_options \<lparr>x_bearing = 0, x_advance = 120\<rparr> \<lparr>ascent = 14, descent = 4\<rparr>
     = Some \<lparr>text_w = 120, text_h = 18, pad = 8, win_w = 136, win_h = 34\<rparr>
   \<and> compute_size default_options \<lparr>x_bearing = 0, x_advance = 127.5\<rparr> \<lparr>ascent = 14, descent = 4\<rparr>
     = Some \<lparr>text_w = 128, text_h = 18, pad = 8, win_w = 144, win_h = 34\<rparr>
   \<and> (136 :: uint16_t) \<le> 144"
proof -
  let ?fe = "\<lparr>ascent = 14, descent = 4\<rparr>"
  let ?te1 = "\<lparr>x_bearing = 0, x_advance = 120\<rparr>" and ?te2 = "\<lparr>x_bearing = 0, x_advance = 127.5\<rparr>"
  let ?s1 = "\<lparr>text_w = 120, text_h = 18, pad = 8, win_w = 136, win_h = 34\<rparr>"
  let ?s2 = "\<lparr>text_w = 128, text_h = 18, pad = 8, win_w = 144, win_h = 34\<rparr>"
  have a: "compute_size default_options ?te1 ?fe = Some ?s1" by (simp add: layout_eval)
  have b: "compute_size default_options ?te2 ?fe = Some ?s2" by (simp add: layout_eval)
  have c: "0 \<le> x_advance ?te1" "x_advance ?te1 \<le> x_advance ?te2"
          "text_w ?s2 + 2 * uint (pad ?s2) < 65536"
    by simp_all
  show ?thesis
    using window_width_monotone [OF a b c] a b by simp
qed

text \<open>
  C9 as stated fails: with the margin 8, the advance width 65519 gives the window
  width 65535, and the longer 65520 gives \<open>65536 mod 2 ^ 16 = 0\<close>.
\<close>

theorem window_width_wraps_not_monotone:
  "compute_size default_options
      \<lparr>x_bearing = 0, x_advance = 65519\<rparr> \<lparr>ascent = 14, descent = 4\<rparr>
     = Some \<lparr>text_w = 65519, text_h = 18, pad = 8, win_w = 65535, win_h = 34\<rparr>
   \<and> compute_size default_options
      \<lparr>x_bearing = 0, x_advance = 65520\<rparr> \<lparr>ascent = 14, descent = 4\<rparr>
     = Some \<lparr>text_w = 65520, text_h = 18, pad = 8, win_w = 0, win_h = 34\<rparr>
   \<and> x_advance \<lparr>x_bearing = 0, x_advance = 65519\<rparr>
       < x_advance \<lparr>x_bearing = 0, x_advance = 65520\<rparr>
   \<and> win_w \<lparr>text_w = 65520, text_h = 18, pad = 8, win_w = 0, win_h = 34\<rparr>
       < win_w \<lparr>text_w = 65519, text_h = 18, pad = 8, win_w = 65535, win_h = 34\<rparr>"
  by (simp add: layout_eval)

lemma compute_position_in_range:
  assumes m: "uint (margin_px opt) \<le> 32767"
      and lo: "- 32768 \<le> uint (width_in_pixels screen) - uint w - uint (margin_px opt)"
      and hi: "uint (width_in_pixels screen) - uint w - uint (margin_px opt) \<le> 32767"
  shows "\<exists>pos. compute_position opt screen w = Some pos
           \<and> sint (new_x pos) = uint (width_in_pixels screen) - uint w - uint (margin_px opt)
           \<and> sint (new_y pos) = uint (margin_px opt)"
proof -
  define x where "x = uint (width_in_pixels screen) - uint w - uint (margin_px opt)"
  have sm: "sint (margin_px opt) = uint (margin_px opt)" by (rule sint_margin [OF m])
  have "INT_MIN \<le> x" "x \<le> INT_MAX"
    using lo hi by (simp_all add: x_def INT_MIN_def INT_MAX_def)
  then have s: "int_sub (uint (width_in_pixels screen) - uint w) (sint (margin_px opt)) = Some x"
    by (simp add: int_sub_def sm x_def)
  let ?pos = "\<lparr>new_x = word_of_int x, new_y = ucast (margin_px opt)\<rparr>"
  have c: "compute_position opt screen w = Some ?pos"
    by (simp add: compute_position_def s)
  have px: "sint (new_x ?pos) = x"
    using lo hi by (simp add: x_def [symmetric] sint_word_of_int_16)
  have py: "sint (new_y ?pos) = uint (margin_px opt)"
    using sint_ucast_margin [OF m] by simp
  show ?thesis
    unfolding x_def [symmetric]
    by (rule exI [of _ ?pos]) (intro conjI c px py)
qed

text \<open>
  C5, as amended. For every geometry computed by the layout step in which the margin is
  at most 32767 and \<open>screenWidth - width - margin\<close> lies in the range of a 16-bit
  signed number (\<open>x\<close> and \<open>y\<close> are such numbers),
  \<open>x + width + margin = screenWidth\<close> holds (the window is right-aligned with the
  configured margin from the right screen edge), and \<open>y = margin\<close>.
\<close>

theorem window_right_aligned:
  assumes g: "compute_geometry opt screen te fe = Some (sz, pos)"
      and m: "uint (margin_px opt) \<le> 32767"
      and lo: "- 32768 \<le> uint (width_in_pixels screen) - uint (win_w sz) - uint (margin_px opt)"
      and hi: "uint (width_in_pixels screen) - uint (win_w sz) - uint (margin_px opt) \<le> 32767"
  shows "sint (new_x pos) + uint (win_w sz) + uint (margin_px opt) = uint (width_in_pixels screen)
       \<and> sint (new_y pos) = uint (margin_px opt)"
proof -
  from g have p: "compute_position opt screen (win_w sz) = Some pos"
    by (auto simp: compute_geometry_def split: bind_splits)
  from compute_position_in_range [OF m lo hi] p
  have "sint (new_x pos) = uint (width_in_pixels screen) - uint (win_w sz) - uint (margin_px opt)"
    and "sint (new_y pos) = uint (margin_px opt)"
    by auto
  then show ?thesis by simp
qed

theorem window_right_aligned_witness:
  "compute_geometry (default_options\<lparr>time_only := True\<rparr>)
      \<lparr>width_in_pixels = 1920, height_in_pixels = 1080\<rparr>
      \<lparr>x_bearing = 0, x_advance = 120\<rparr> \<lparr>ascent = 14, descent = 4\<rparr>
     = Some (\<lparr>text_w = 120, text_h = 18, pad = 8, win_w = 136, win_h = 34\<rparr>,
             \<lparr>new_x = 1776, new_y = 8\<rparr>)
   \<and> sint (1776 :: int16_t) + uint (136 :: uint16_t) + 8 = (1920 :: int)
   \<and> sint (8 :: int16_t) = 8"
proof -
  let ?opt = "default_options\<lparr>time_only := True\<rparr>"
  let ?scr = "\<lparr>width_in_pixels = 1920, height_in_pixels = 1080\<rparr>"
  let ?sz = "\<lparr>text_w = 120, text_h = 18, pad = 8, win_w = 136, win_h = 34\<rparr>"
  let ?pos = "\<lparr>new_x = 1776, new_y = 8\<rparr>"
  have g: "compute_geometry ?opt ?scr \<lparr>x_bearing = 0, x_advance = 120\<rparr> \<lparr>ascent = 14, descent = 4\<rparr>
             = Some (?sz, ?pos)"
    by (simp add: layout_eval)
  have h: "uint (margin_px ?opt) \<le> 32767"
    "- 32768 \<le> uint (width_in_pixels ?scr) - uint (win_w ?sz) - uint (margin_px ?opt)"
    "uint (width_in_pixels ?scr) - uint (win_w ?sz) - uint (margin_px ?opt) \<le> 32767"
    by (simp_all add: default_options_def)
  show ?thesis
    using window_right_aligned [OF g h] g by (simp add: default_options_def)
qed

text \<open>
  C5 as stated fails: with the margin 40000 on a screen 1920 pixels wide, \<open>y\<close> is
  \<open>40000 - 65536\<close> and \<open>x + width + margin\<close> is 67456.
\<close>

theorem position_wraps_not_aligned:
  "compute_geometry (default_options\<lparr>margin_px := 40000\<rparr>)
      \<lparr>width_in_pixels = 1920, height_in_pixels = 1080\<rparr>
      \<lparr>x_bearing = 0, x_advance = 120\<rparr> \<lparr>ascent = 14, descent = 4\<rparr>
     = Some (\<lparr>text_w = 120, text_h = 18, pad = 40000, win_w = 14584, win_h = 14482\<rparr>,
             \<lparr>new_x = 12872, new_y = 40000\<rparr>)
   \<and> sint (new_x \<lparr>new_x = 12872, new_y = 40000\<rparr>)
        + uint (win_w \<lparr>text_w = 120, text_h = 18, pad = 40000, win_w = 14584, win_h = 14482\<rparr>)
        + uint (margin_px (default_options\<lparr>margin_px := 40000\<rparr>))
       \<noteq> uint (width_in_pixels \<lparr>width_in_pixels = 1920, height_in_pixels = 1080\<rparr>)
   \<and> sint (new_y \<lparr>new_x = 12872, new_y = 40000\<rparr>)
       \<noteq> uint (margin_px (default_options\<lparr>margin_px := 40000\<rparr>))"
  by (simp add: layout_eval)

section \<open>The render loop: draining, tick and redraw\<close>

lemma fst_drain_event:
  "fst (drain_event opt ev s) = (if redraw_event ev then True else fst s)"
  by (simp add: drain_event_def redraw_event_def Let_def)

lemma fst_drain:
  "fst (drain opt evs s) = (fst s \<or> (\<exists>ev \<in> set evs. redraw_event ev))"
  by (induction evs arbitrary: s) (auto simp: fst_drain_event)

lemma redraws_append: "redraws (xs @ ys) = redraws xs + redraws ys"
  by (simp add: redraws_def)

lemma redraws_drain_event: "redraws (snd (drain_event opt ev s)) = redraws (snd s)"
  by (simp add: drain_event_def Let_def redraws_def)

lemma redraws_drain: "redraws (snd (drain opt evs s)) = redraws (snd s)"
  by (induction evs arbitrary: s) (simp_all add: redraws_drain_event)

lemma redraws_redraw:
  assumes "redraw opt screen io = Some (reqs, nowbuf)"
  shows "redraws reqs = 1"
  using assms
  by (auto simp: redraw_def redraws_def Let_def split: bind_splits prod.splits)

text \<open>
  C2. During the draining, for every drained event: an event whose type is Expose,
  VisibilityNotify or ConfigureNotify sets \<open>need_redraw\<close> to true, and an event of any
  other type leaves \<open>need_redraw\<close> unchanged. So after the draining \<open>need_redraw\<close> is
  true exactly when it was before or one of the drained events has one of these types.
\<close>

theorem drain_classifies_events:
  "fst (drain_event opt ev (need_redraw, out))
     = (if event_code ev = XCB_EXPOSE \<or> event_code ev = XCB_VISIBILITY_NOTIFY
           \<or> event_code ev = XCB_CONFIGURE_NOTIFY
        then True else need_redraw)
   \<and> fst (drain opt evs (need_redraw, out))
     = (need_redraw \<or> (\<exists>ev \<in> set evs. event_code ev = XCB_EXPOSE
           \<or> event_code ev = XCB_VISIBILITY_NOTIFY \<or> event_code ev = XCB_CONFIGURE_NOTIFY))"
  using fst_drain_event [of opt ev "(need_redraw, out)"] fst_drain [of opt evs "(need_redraw, out)"]
  by (simp add: redraw_event_def)

theorem drain_classifies_events_witness:
  "fst (drain_event default_options \<lparr>response_type = 12\<rparr> (False, [])) = True
   \<and> fst (drain_event default_options \<lparr>response_type = 2\<rparr> (False, [])) = False
   \<and> fst (drain default_options [\<lparr>response_type = 2\<rparr>, \<lparr>response_type = 150\<rparr>] (False, [])) = True
   \<and> fst (drain default_options [\<lparr>response_type = 2\<rparr>, \<lparr>response_type = 33\<rparr>] (False, [])) = False"
  using drain_classifies_events [of default_options "\<lparr>response_type = 12\<rparr>" False "[]"
          "[\<lparr>response_type = 2\<rparr>, \<lparr>response_type = 150\<rparr>]"]
        drain_classifies_events [of default_options "\<lparr>response_type = 2\<rparr>" False "[]"
          "[\<lparr>response_type = 2\<rparr>, \<lparr>response_type = 33\<rparr>]"]
  by (simp add: event_code_def XCB_EXPOSE_def XCB_VISIBILITY_NOTIFY_def XCB_CONFIGURE_NOTIFY_def)


lemmas loop_eval =
  loop_iteration_def redraw_def compute_geometry_def compute_position_def compute_size_def
  double_to_int_def int_add_def int_sub_def INT_MIN_def INT_MAX_def default_options_def
  now_timestr_def strftime_def strftime_conv_def pad2_def dec_int_def dec.simps digit_char_def
  ms_to_next_second_def long_to_int_def tick_def EINTR_def example_io_def example_screen_def
  initial_state_def config_mask_def XCB_CONFIG_WINDOW_X_def XCB_CONFIG_WINDOW_Y_def
  XCB_CONFIG_WINDOW_WIDTH_def XCB_CONFIG_WINDOW_HEIGHT_def XCB_CONFIG_WINDOW_STACK_MODE_def
  XCB_STACK_MODE_ABOVE_def signed_divide_int_def signed_modulo_int_def binary64_eval

lemma example_iteration:
  "loop_iteration default_options example_screen example_io initial_state
     = Some ([Poll 750,
              Cairo_select_font_face Measure_cr ''DejaVu Sans Mono'',
              Cairo_set_font_size Measure_cr 16,
              Xcb_configure_window 79 [1776, 8, 136, 34, 0],
              Cairo_xcb_surface_create 136 34,
              Cairo_create,
              Cairo_set_source_rgb 0 0 0,
              Cairo_paint,
              Cairo_select_font_face Cr ''DejaVu Sans Mono'',
              Cairo_set_font_size Cr 16,
              Cairo_set_source_rgb 1 1 1,
              Cairo_move_to 7 22,
              Cairo_show_text ''2024-01-15 09:05:03'',
              Cairo_surface_flush,
              Cairo_destroy,
              Cairo_surface_destroy,
              Xcb_flush],
             \<lparr>last_str = ''2024-01-15 09:05:03'', pending = []\<rparr>)"
  by (simp add: loop_eval)


lemma loop_iteration_eintr:
  assumes "poll_ret io < 0" "poll_errno io = EINTR"
  shows "loop_iteration opt screen io st
           = Some ([Poll (long_to_int (ms_to_next_second (clock_realtime io)))],
                   st\<lparr>pending := pending st @ arrivals io\<rparr>)"
  using assms by (simp add: loop_iteration_def Let_def)

lemma loop_iteration_timeout:
  assumes "poll_ret io = 0"
  shows "loop_iteration opt screen io st
           = do {
               (reqs, nowbuf) \<leftarrow> redraw opt screen io;
               Some (snd (drain opt (pending st @ arrivals io)
                       (False, [Poll (long_to_int (ms_to_next_second (clock_realtime io)))]))
                     @ reqs,
                     \<lparr>last_str = nowbuf, pending = []\<rparr>)
             }"
  using assms by (simp add: loop_iteration_def Let_def tick_def)

lemma loop_iteration_idle:
  assumes "poll_ret io \<noteq> 0" "\<not> (poll_ret io < 0 \<and> poll_errno io = EINTR)"
      and "\<forall>ev \<in> set (pending st @ arrivals io). \<not> redraw_event ev"
  shows "loop_iteration opt screen io st
           = Some (snd (drain opt (pending st @ arrivals io)
                     (False, [Poll (long_to_int (ms_to_next_second (clock_realtime io)))])),
                   st\<lparr>pending := []\<rparr>)"
  using assms by (auto simp: loop_iteration_def Let_def tick_def fst_drain)

lemma redraws_Poll_drain:
  "redraws (snd (drain opt evs (False, [Poll t]))) = 0"
  by (simp add: redraws_drain) (simp add: redraws_def)

lemma loop_iteration_redraws_timeout:
  assumes "poll_ret io = 0" "loop_iteration opt screen io st = Some (reqs, st')"
  shows "redraws reqs = 1" and "pending st' = []"
  using assms(2) unfolding loop_iteration_timeout [OF assms(1)]
  by (auto simp: redraws_append redraws_Poll_drain redraws_redraw split: bind_splits)

lemma loop_iteration_no_redraw:
  assumes "poll_ret io \<noteq> 0" "pending st = []" "arrivals io = []"
      and "loop_iteration opt screen io st = Some (reqs, st')"
  shows "redraws reqs = 0"
proof (cases "poll_ret io < 0 \<and> poll_errno io = EINTR")
  case True
  then show ?thesis
    using assms(4) by (auto simp: loop_iteration_eintr redraws_def)
next
  case False
  have "\<forall>ev \<in> set (pending st @ arrivals io). \<not> redraw_event ev"
    using assms(2,3) by simp
  from loop_iteration_idle [OF assms(1) False this] assms(4)
  show ?thesis by (auto simp: redraws_Poll_drain)
qed

text \<open>
  C3. In every loop iteration where the wait expires by timeout (\<^verbatim>\<open>poll\<close> returns 0),
  \<open>need_redraw\<close> is forced true whatever the draining found, and the iteration redraws
  exactly once (when the redraw has a result at all). Draining an empty event queue
  neither cancels nor duplicates it: a following iteration that wakes for another
  reason and finds the queue empty does not redraw again.
\<close>

theorem timeout_forces_one_redraw:
  assumes "poll_ret io = 0"
  shows "tick (poll_ret io) (fst (drain opt (pending st @ arrivals io) (False, out))) = True
       \<and> drain opt [] (tick (poll_ret io) False, out) = (True, out)
       \<and> (loop_iteration opt screen io st = None \<longleftrightarrow> redraw opt screen io = None)
       \<and> (\<forall>reqs st'. loop_iteration opt screen io st = Some (reqs, st') \<longrightarrow> redraws reqs = 1)
       \<and> (\<forall>io' reqs st'.
             poll_ret io' \<noteq> 0 \<and> arrivals io' = []
             \<and> main_loop opt screen [io, io'] st = Some (reqs, st')
             \<longrightarrow> redraws reqs = 1)"
proof -
  have a: "tick (poll_ret io) (fst (drain opt (pending st @ arrivals io) (False, out))) = True"
    using assms by (simp add: tick_def)
  have b: "drain opt [] (tick (poll_ret io) False, out) = (True, out)"
    using assms by (simp add: tick_def)
  have c: "loop_iteration opt screen io st = None \<longleftrightarrow> redraw opt screen io = None"
    unfolding loop_iteration_timeout [OF assms]
    by (auto split: bind_splits)
  have d: "\<forall>reqs st'. loop_iteration opt screen io st = Some (reqs, st') \<longrightarrow> redraws reqs = 1"
    using loop_iteration_redraws_timeout(1) [OF assms] by blast
  have e: "redraws reqs = 1"
    if h: "poll_ret io' \<noteq> 0" "arrivals io' = []"
          "main_loop opt screen [io, io'] st = Some (reqs, st')"
    for io' reqs st'
  proof -
    from h(3) obtain r1 s1 r2 s2 where
      i1: "loop_iteration opt screen io st = Some (r1, s1)" and
      i2: "loop_iteration opt screen io' s1 = Some (r2, s2)" and
      r: "reqs = r1 @ r2"
      by (auto split: bind_splits)
    have "redraws r1 = 1" "pending s1 = []"
      using loop_iteration_redraws_timeout [OF assms i1] by simp_all
    moreover from this(2) have "redraws r2 = 0"
      using loop_iteration_no_redraw [OF h(1) _ h(2) i2] by simp
    ultimately show ?thesis by (simp add: r redraws_append)
  qed
  from a b c d e show ?thesis by blast
qed

theorem timeout_forces_one_redraw_witness:
  "poll_ret example_io = 0
   \<and> (\<exists>reqs st'. loop_iteration default_options example_screen example_io initial_state
                    = Some (reqs, st') \<and> redraws reqs = 1)
   \<and> (\<exists>reqs st'. main_loop default_options example_screen
                     [example_io, example_io\<lparr>poll_ret := 1\<rparr>] initial_state
                    = Some (reqs, st') \<and> redraws reqs = 1)"
proof -
  have h: "poll_ret example_io = 0" by (simp add: example_io_def)
  have i: "loop_iteration default_options example_screen example_io initial_state \<noteq> None"
    by (simp add: example_iteration)
  have j: "main_loop default_options example_screen
             [example_io, example_io\<lparr>poll_ret := 1\<rparr>] initial_state \<noteq> None"
    by (simp add: example_iteration) (simp add: loop_eval)
  have k: "poll_ret (example_io\<lparr>poll_ret := 1\<rparr>) \<noteq> 0 \<and> arrivals (example_io\<lparr>poll_ret := 1\<rparr>) = []"
    by (simp add: example_io_def)
  show ?thesis
    using timeout_forces_one_redraw [OF h, of default_options initial_state "[]" example_screen]
      h i j k
    by (metis not_None_eq old.prod.exhaust)
qed


lemma drain_event_snd_Cons:
  "\<exists>rest. snd (drain_event opt ev (b, r # rs)) = r # rest"
  by (simp add: drain_event_def Let_def)

lemma drain_snd_Cons:
  "\<exists>rest. snd (drain opt evs (b, r # rs)) = r # rest"
proof (induction evs arbitrary: b rs)
  case Nil
  show ?case by simp
next
  case (Cons ev evs)
  obtain b' rest where d: "drain_event opt ev (b, r # rs) = (b', r # rest)"
    using drain_event_snd_Cons [of opt ev b r rs] by (cases "drain_event opt ev (b, r # rs)") auto
  show ?case using Cons.IH [of b' rest] by (simp add: d)
qed

lemma loop_iteration_starts_with_poll:
  assumes "loop_iteration opt screen io st = Some (reqs, st')"
  shows "\<exists>rest. reqs = Poll (long_to_int (ms_to_next_second (clock_realtime io))) # rest"
proof -
  let ?p = "Poll (long_to_int (ms_to_next_second (clock_realtime io)))"
  obtain rest where d: "snd (drain opt (pending st @ arrivals io) (False, [?p])) = ?p # rest"
    using drain_snd_Cons [of opt "pending st @ arrivals io" False ?p "[]"] by blast
  show ?thesis
    using assms
    by (auto simp: loop_iteration_def Let_def d split: if_splits bind_splits)
qed

text \<open>
  C7. Whenever the blocking wait is interrupted by a signal (\<^verbatim>\<open>poll\<close> returns a negative
  value with \<^verbatim>\<open>errno\<close> \<^verbatim>\<open>EINTR\<close>), the iteration does nothing but the wait: no event is
  drained (all of them stay queued), nothing is redrawn, and \<^verbatim>\<open>last_str\<close> is unchanged;
  with no event arrived the loop state is unchanged. The loop goes on with the next
  iteration, and every iteration begins with a wait computed from its own reading of
  the clock.
\<close>

theorem eintr_restarts_sleep:
  assumes "poll_ret io < 0" and "poll_errno io = EINTR"
  shows "loop_iteration opt screen io st
           = Some ([Poll (long_to_int (ms_to_next_second (clock_realtime io)))],
                   \<lparr>last_str = last_str st, pending = pending st @ arrivals io\<rparr>)
       \<and> main_loop opt screen (io # ios) st
           = do {
               (reqs, st') \<leftarrow> main_loop opt screen ios
                                 \<lparr>last_str = last_str st, pending = pending st @ arrivals io\<rparr>;
               Some (Poll (long_to_int (ms_to_next_second (clock_realtime io))) # reqs, st')
             }
       \<and> (arrivals io = [] \<longrightarrow>
            loop_iteration opt screen io st
              = Some ([Poll (long_to_int (ms_to_next_second (clock_realtime io)))], st))
       \<and> (\<forall>io' s reqs st'.
             loop_iteration opt screen io' s = Some (reqs, st')
             \<longrightarrow> hd reqs = Poll (long_to_int (ms_to_next_second (clock_realtime io'))))"
proof -
  have e: "st\<lparr>pending := pending st @ arrivals io\<rparr>
             = \<lparr>last_str = last_str st, pending = pending st @ arrivals io\<rparr>"
    by simp
  have a: "loop_iteration opt screen io st
           = Some ([Poll (long_to_int (ms_to_next_second (clock_realtime io)))],
                   \<lparr>last_str = last_str st, pending = pending st @ arrivals io\<rparr>)"
    using loop_iteration_eintr [OF assms, of opt screen st] by (simp only: e)
  have b: "main_loop opt screen (io # ios) st
           = do {
               (reqs, st') \<leftarrow> main_loop opt screen ios
                                 \<lparr>last_str = last_str st, pending = pending st @ arrivals io\<rparr>;
               Some (Poll (long_to_int (ms_to_next_second (clock_realtime io))) # reqs, st')
             }"
    by (simp add: a)
  have c: "hd reqs = Poll (long_to_int (ms_to_next_second (clock_realtime io')))"
    if "loop_iteration opt screen io' s = Some (reqs, st')" for io' s reqs st'
    using loop_iteration_starts_with_poll [OF that] by auto
  have d: "loop_iteration opt screen io st
              = Some ([Poll (long_to_int (ms_to_next_second (clock_realtime io)))], st)"
    if "arrivals io = []"
    using loop_iteration_eintr [OF assms, of opt screen st] that by simp
  from a b c d show ?thesis by blast
qed

theorem eintr_restarts_sleep_witness:
  "poll_ret (example_io\<lparr>poll_ret := - 1, poll_errno := EINTR,
                         arrivals := [\<lparr>response_type = 12\<rparr>]\<rparr>) < 0
   \<and> loop_iteration default_options example_screen
        (example_io\<lparr>poll_ret := - 1, poll_errno := EINTR, arrivals := [\<lparr>response_type = 12\<rparr>]\<rparr>)
        initial_state
      = Some ([Poll 750], \<lparr>last_str = [], pending = [\<lparr>response_type = 12\<rparr>]\<rparr>)"
proof -
  let ?io = "example_io\<lparr>poll_ret := - 1, poll_errno := EINTR, arrivals := [\<lparr>response_type = 12\<rparr>]\<rparr>"
  have h: "poll_ret ?io < 0" "poll_errno ?io = EINTR" by simp_all
  show ?thesis
    using eintr_restarts_sleep [OF h, of default_options example_screen initial_state "[]"] h
    by (simp add: example_io_def initial_state_def ms_to_next_second_def long_to_int_def
          signed_divide_int_def signed_modulo_int_def)
qed

lemma uint_ucast_16_32: "uint (ucast (w :: 16 word) :: 32 word) = uint w"
  by (simp add: unsigned_ucast_eq take_bit_int_eq_self_iff)
     (rule order_less_trans [OF uint_lt2p [of w]], simp)

lemma sized_before_painted_redraw:
  assumes "redraw opt screen io = Some (reqs, nowbuf)"
  shows "sized_before_painted cur surf reqs"
  using assms
  by (auto simp: redraw_def Let_def uint_ucast_16_32 split: bind_splits prod.splits)

lemma sized_before_painted_append_Poll:
  "sized_before_painted cur surf (xs @ Poll t # ys)
     \<longleftrightarrow> sized_before_painted cur surf xs \<and> sized_before_painted None False ys"
  by (induction cur surf xs rule: sized_before_painted.induct) auto

lemma sized_before_painted_debug_events:
  assumes "\<forall>r \<in> set ds. \<exists>n c. r = Debug_event n c"
  shows "sized_before_painted cur surf (ds @ rs) = sized_before_painted cur surf rs"
  using assms by (induction ds) auto

lemma drain_event_output:
  "\<exists>ds. snd (drain_event opt ev s) = snd s @ ds \<and> (\<forall>r \<in> set ds. \<exists>n c. r = Debug_event n c)"
  by (simp add: drain_event_def Let_def)

lemma drain_output:
  "\<exists>ds. snd (drain opt evs s) = snd s @ ds \<and> (\<forall>r \<in> set ds. \<exists>n c. r = Debug_event n c)"
proof (induction evs arbitrary: s)
  case Nil
  show ?case by simp
next
  case (Cons ev evs)
  obtain d1 where d1: "snd (drain_event opt ev s) = snd s @ d1"
      "\<forall>r \<in> set d1. \<exists>n c. r = Debug_event n c"
    using drain_event_output by blast
  obtain d2 where d2: "snd (drain opt evs (drain_event opt ev s)) = snd (drain_event opt ev s) @ d2"
      "\<forall>r \<in> set d2. \<exists>n c. r = Debug_event n c"
    using Cons.IH by blast
  have "snd (drain opt (ev # evs) s) = snd s @ (d1 @ d2)"
    by (simp add: d1(1) d2(1))
  moreover have "\<forall>r \<in> set (d1 @ d2). \<exists>n c. r = Debug_event n c"
    using d1(2) d2(2) by auto
  ultimately show ?case by blast
qed

lemma sized_before_painted_iteration:
  assumes "loop_iteration opt screen io st = Some (reqs, st')"
  shows "sized_before_painted cur surf reqs"
proof -
  let ?p = "Poll (long_to_int (ms_to_next_second (clock_realtime io)))"
  obtain ds where ds: "snd (drain opt (pending st @ arrivals io) (False, [?p])) = ?p # ds"
      "\<forall>r \<in> set ds. \<exists>n c. r = Debug_event n c"
    using drain_output [of opt "pending st @ arrivals io" "(False, [?p])"] by auto
  have idle: "sized_before_painted cur surf (?p # ds)"
    using sized_before_painted_debug_events [OF ds(2), of None False "[]"] by simp
  have busy: "sized_before_painted cur surf ((?p # ds) @ rs)"
    if "redraw opt screen io = Some (rs, nowbuf)" for rs nowbuf
    using sized_before_painted_debug_events [OF ds(2), of None False rs]
      sized_before_painted_redraw [OF that, of None False]
    by simp
  show ?thesis
    using assms idle busy
    by (auto simp: loop_iteration_def Let_def ds(1) split: if_splits bind_splits)
qed

lemma sized_before_painted_main_loop:
  assumes "main_loop opt screen ios st = Some (reqs, st')"
  shows "sized_before_painted None False reqs \<and> (reqs = [] \<or> (\<exists>t rest. reqs = Poll t # rest))"
  using assms
proof (induction ios arbitrary: st reqs st')
  case Nil
  then show ?case by simp
next
  case (Cons io ios)
  from Cons.prems obtain r1 s1 r2 where
    i1: "loop_iteration opt screen io st = Some (r1, s1)" and
    i2: "main_loop opt screen ios s1 = Some (r2, st')" and
    r: "reqs = r1 @ r2"
    by (auto split: bind_splits)
  obtain rest where p: "r1 = Poll (long_to_int (ms_to_next_second (clock_realtime io))) # rest"
    using loop_iteration_starts_with_poll [OF i1] by blast
  have a: "sized_before_painted None False r1"
    by (rule sized_before_painted_iteration [OF i1])
  from Cons.IH [OF i2] have b: "sized_before_painted None False r2"
    and c: "r2 = [] \<or> (\<exists>t rest. r2 = Poll t # rest)" by simp_all
  from c show ?case
  proof
    assume "r2 = []"
    with a p r show ?thesis by simp
  next
    assume "\<exists>t rest. r2 = Poll t # rest"
    then obtain t rest2 where q: "r2 = Poll t # rest2" by blast
    with b have "sized_before_painted None False rest2" by simp
    with a have "sized_before_painted None False (r1 @ Poll t # rest2)"
      by (simp only: sized_before_painted_append_Poll)
    with p q r show ?thesis by simp
  qed
qed

lemma redraw_requests:
  assumes "redraw opt screen io = Some (reqs, nb)"
  shows "\<exists>nowbuf sz pos.
           now_timestr (local_time io) 64 (time_only opt) = Some nowbuf
         \<and> compute_geometry opt screen (text_extents io nowbuf) (font_extents io) = Some (sz, pos)
         \<and> nb = take 63 nowbuf
         \<and> reqs =
             [Cairo_select_font_face Measure_cr (font_family opt),
              Cairo_set_font_size Measure_cr (font_size_px opt)]
             @ Xcb_configure_window config_mask
                 [scast (new_x pos), scast (new_y pos), ucast (win_w sz), ucast (win_h sz),
                  XCB_STACK_MODE_ABOVE]
             # (if debug opt
                then [Debug_tick nowbuf (text_w sz) (text_h sz) (win_w sz) (win_h sz)
                        (new_x pos) (new_y pos)]
                else [])
             @ Cairo_xcb_surface_create (uint (win_w sz)) (uint (win_h sz))
             # [Cairo_create,
                Cairo_set_source_rgb (bg_r opt) (bg_g opt) (bg_b opt),
                Cairo_paint,
                Cairo_select_font_face Cr (font_family opt),
                Cairo_set_font_size Cr (font_size_px opt),
                Cairo_set_source_rgb (fg_r opt) (fg_g opt) (fg_b opt),
                Cairo_move_to
                  (double_sub (real_of_int (uint (pad sz))) (x_bearing (text_extents io nowbuf)))
                  (double_add (real_of_int (uint (pad sz))) (ascent (font_extents io))),
                Cairo_show_text nowbuf,
                Cairo_surface_flush,
                Cairo_destroy,
                Cairo_surface_destroy,
                Xcb_flush]"
proof -
  from assms obtain nowbuf where
    n: "now_timestr (local_time io) 64 (time_only opt) = Some nowbuf"
    by (auto simp: redraw_def split: bind_splits)
  from assms n obtain sz pos where
    g: "compute_geometry opt screen (text_extents io nowbuf) (font_extents io) = Some (sz, pos)"
    by (auto simp: redraw_def Let_def split: bind_splits)
  show ?thesis
    using assms
    by (intro exI [of _ nowbuf] exI [of _ sz] exI [of _ pos])
       (auto simp: redraw_def Let_def n g)
qed

lemma redraw_in_order:
  assumes "redraw opt screen io = Some (reqs, nb)"
  shows "\<exists>nowbuf sz pos pre mid post.
           now_timestr (local_time io) 64 (time_only opt) = Some nowbuf
         \<and> compute_geometry opt screen (text_extents io nowbuf) (font_extents io) = Some (sz, pos)
         \<and> reqs = pre
               @ Xcb_configure_window config_mask
                   [scast (new_x pos), scast (new_y pos), ucast (win_w sz), ucast (win_h sz),
                    XCB_STACK_MODE_ABOVE]
               # mid
               @ Cairo_xcb_surface_create (uint (win_w sz)) (uint (win_h sz)) # post
         \<and> (\<forall>r \<in> set (pre @ mid). \<not> is_geometry_request r \<and> \<not> is_drawing_request r)
         \<and> (\<forall>r \<in> set post. \<not> is_geometry_request r)
         \<and> Cairo_paint \<in> set post \<and> Cairo_show_text nowbuf \<in> set post"
proof -
  from redraw_requests [OF assms] obtain nowbuf sz pos where
    n: "now_timestr (local_time io) 64 (time_only opt) = Some nowbuf" and
    g: "compute_geometry opt screen (text_extents io nowbuf) (font_extents io) = Some (sz, pos)" and
    r: "reqs =
             [Cairo_select_font_face Measure_cr (font_family opt),
              Cairo_set_font_size Measure_cr (font_size_px opt)]
             @ Xcb_configure_window config_mask
                 [scast (new_x pos), scast (new_y pos), ucast (win_w sz), ucast (win_h sz),
                  XCB_STACK_MODE_ABOVE]
             # (if debug opt
                then [Debug_tick nowbuf (text_w sz) (text_h sz) (win_w sz) (win_h sz)
                        (new_x pos) (new_y pos)]
                else [])
             @ Cairo_xcb_surface_create (uint (win_w sz)) (uint (win_h sz))
             # [Cairo_create,
                Cairo_set_source_rgb (bg_r opt) (bg_g opt) (bg_b opt),
                Cairo_paint,
                Cairo_select_font_face Cr (font_family opt),
                Cairo_set_font_size Cr (font_size_px opt),
                Cairo_set_source_rgb (fg_r opt) (fg_g opt) (fg_b opt),
                Cairo_move_to
                  (double_sub (real_of_int (uint (pad sz))) (x_bearing (text_extents io nowbuf)))
                  (double_add (real_of_int (uint (pad sz))) (ascent (font_extents io))),
                Cairo_show_text nowbuf,
                Cairo_surface_flush,
                Cairo_destroy,
                Cairo_surface_destroy,
                Xcb_flush]"
    by blast
  let ?pre = "[Cairo_select_font_face Measure_cr (font_family opt),
               Cairo_set_font_size Measure_cr (font_size_px opt)]"
  let ?mid = "if debug opt
              then [Debug_tick nowbuf (text_w sz) (text_h sz) (win_w sz) (win_h sz)
                      (new_x pos) (new_y pos)]
              else []"
  let ?post = "[Cairo_create,
                Cairo_set_source_rgb (bg_r opt) (bg_g opt) (bg_b opt),
                Cairo_paint,
                Cairo_select_font_face Cr (font_family opt),
                Cairo_set_font_size Cr (font_size_px opt),
                Cairo_set_source_rgb (fg_r opt) (fg_g opt) (fg_b opt),
                Cairo_move_to
                  (double_sub (real_of_int (uint (pad sz))) (x_bearing (text_extents io nowbuf)))
                  (double_add (real_of_int (uint (pad sz))) (ascent (font_extents io))),
                Cairo_show_text nowbuf,
                Cairo_surface_flush,
                Cairo_destroy,
                Cairo_surface_destroy,
                Xcb_flush]"
  have a: "\<forall>r \<in> set (?pre @ ?mid). \<not> is_geometry_request r \<and> \<not> is_drawing_request r"
    by simp
  have b: "\<forall>r \<in> set ?post. \<not> is_geometry_request r" by simp
  have c: "Cairo_paint \<in> set ?post \<and> Cairo_show_text nowbuf \<in> set ?post" by simp
  show ?thesis
    using n g r a b c by blast
qed

lemma loop_iteration_requests:
  assumes "loop_iteration opt screen io st = Some (reqs, st')"
  shows "\<exists>ds. (\<forall>r \<in> set ds. \<exists>n c. r = Debug_event n c)
           \<and> (reqs = Poll (long_to_int (ms_to_next_second (clock_realtime io))) # ds
              \<or> (\<exists>rs nb. redraw opt screen io = Some (rs, nb)
                    \<and> reqs = Poll (long_to_int (ms_to_next_second (clock_realtime io)))
                               # ds @ rs))"
proof -
  let ?p = "Poll (long_to_int (ms_to_next_second (clock_realtime io)))"
  obtain ds where ds: "snd (drain opt (pending st @ arrivals io) (False, [?p])) = ?p # ds"
      "\<forall>r \<in> set ds. \<exists>n c. r = Debug_event n c"
    using drain_output [of opt "pending st @ arrivals io" "(False, [?p])"] by auto
  have e: "\<forall>r \<in> set ([] :: request list). \<exists>n c. r = Debug_event n c" by simp
  from assms consider
      (eintr) "reqs = [?p]"
    | (idle) "reqs = ?p # ds"
    | (busy) rs nb where "redraw opt screen io = Some (rs, nb)" "reqs = (?p # ds) @ rs"
    by (auto simp: loop_iteration_def Let_def ds(1) split: if_splits bind_splits)
  then show ?thesis
  proof cases
    case eintr
    with e show ?thesis by blast
  next
    case idle
    with ds(2) show ?thesis by blast
  next
    case busy
    with ds(2) show ?thesis by auto
  qed
qed

text \<open>
  C8. Within every single redraw tick, the geometry update (the configure request that
  sets position, size and stack-above) is issued before the drawing surface is created
  and painted, and the surface is created at the tick's final computed size. The
  requests of a redraw are: first, with no geometry or drawing request before it, the
  configure request with the position and size that the layout step (\<open>compute_geometry\<close>)
  computes from this tick's string and metrics, and stack-above; then, with no geometry
  or drawing request in between, the creation of the surface at exactly that width and
  height; then the painting and the text, with no other geometry request. An iteration
  issues the wait, the debug lines of the drained events and, when it redraws, the
  requests of this redraw, nothing else. So in every run of the loop a surface is created
  at the size last configured in the same tick and painted at that size only.
\<close>

theorem geometry_applied_before_painting:
  "(\<forall>reqs nb. redraw opt screen io = Some (reqs, nb) \<longrightarrow>
      (\<exists>nowbuf sz pos pre mid post.
           now_timestr (local_time io) 64 (time_only opt) = Some nowbuf
         \<and> compute_geometry opt screen (text_extents io nowbuf) (font_extents io) = Some (sz, pos)
         \<and> reqs = pre
               @ Xcb_configure_window config_mask
                   [scast (new_x pos), scast (new_y pos), ucast (win_w sz), ucast (win_h sz),
                    XCB_STACK_MODE_ABOVE]
               # mid
               @ Cairo_xcb_surface_create (uint (win_w sz)) (uint (win_h sz)) # post
         \<and> (\<forall>r \<in> set (pre @ mid). \<not> is_geometry_request r \<and> \<not> is_drawing_request r)
         \<and> (\<forall>r \<in> set post. \<not> is_geometry_request r)
         \<and> Cairo_paint \<in> set post \<and> Cairo_show_text nowbuf \<in> set post))
   \<and> config_mask
       = XCB_CONFIG_WINDOW_X OR XCB_CONFIG_WINDOW_Y OR XCB_CONFIG_WINDOW_WIDTH
         OR XCB_CONFIG_WINDOW_HEIGHT OR XCB_CONFIG_WINDOW_STACK_MODE
   \<and> (\<forall>reqs st'. loop_iteration opt screen io st = Some (reqs, st') \<longrightarrow>
        (\<exists>ds. (\<forall>r \<in> set ds. \<exists>n c. r = Debug_event n c)
           \<and> (reqs = Poll (long_to_int (ms_to_next_second (clock_realtime io))) # ds
              \<or> (\<exists>rs nb. redraw opt screen io = Some (rs, nb)
                    \<and> reqs = Poll (long_to_int (ms_to_next_second (clock_realtime io)))
                               # ds @ rs))))
   \<and> (\<forall>reqs st'. main_loop opt screen ios st = Some (reqs, st')
       \<longrightarrow> sized_before_painted None False reqs)"
proof -
  have a: "\<forall>reqs nb. redraw opt screen io = Some (reqs, nb) \<longrightarrow>
      (\<exists>nowbuf sz pos pre mid post.
           now_timestr (local_time io) 64 (time_only opt) = Some nowbuf
         \<and> compute_geometry opt screen (text_extents io nowbuf) (font_extents io) = Some (sz, pos)
         \<and> reqs = pre
               @ Xcb_configure_window config_mask
                   [scast (new_x pos), scast (new_y pos), ucast (win_w sz), ucast (win_h sz),
                    XCB_STACK_MODE_ABOVE]
               # mid
               @ Cairo_xcb_surface_create (uint (win_w sz)) (uint (win_h sz)) # post
         \<and> (\<forall>r \<in> set (pre @ mid). \<not> is_geometry_request r \<and> \<not> is_drawing_request r)
         \<and> (\<forall>r \<in> set post. \<not> is_geometry_request r)
         \<and> Cairo_paint \<in> set post \<and> Cairo_show_text nowbuf \<in> set post)"
    using redraw_in_order [of opt screen io] by blast
  have b: "config_mask
       = XCB_CONFIG_WINDOW_X OR XCB_CONFIG_WINDOW_Y OR XCB_CONFIG_WINDOW_WIDTH
         OR XCB_CONFIG_WINDOW_HEIGHT OR XCB_CONFIG_WINDOW_STACK_MODE"
    by (rule config_mask_def)
  have c: "\<forall>reqs st'. loop_iteration opt screen io st = Some (reqs, st') \<longrightarrow>
        (\<exists>ds. (\<forall>r \<in> set ds. \<exists>n c. r = Debug_event n c)
           \<and> (reqs = Poll (long_to_int (ms_to_next_second (clock_realtime io))) # ds
              \<or> (\<exists>rs nb. redraw opt screen io = Some (rs, nb)
                    \<and> reqs = Poll (long_to_int (ms_to_next_second (clock_realtime io)))
                               # ds @ rs)))"
    using loop_iteration_requests [of opt screen io st] by blast
  have d: "\<forall>reqs st'. main_loop opt screen ios st = Some (reqs, st')
       \<longrightarrow> sized_before_painted None False reqs"
    using sized_before_painted_main_loop [of opt screen ios st] by blast
  from a b c d show ?thesis by (intro conjI)
qed

theorem geometry_applied_before_painting_witness:
  "redraw default_options example_screen example_io
     = Some ([Cairo_select_font_face Measure_cr ''DejaVu Sans Mono'',
              Cairo_set_font_size Measure_cr 16,
              Xcb_configure_window 79 [1776, 8, 136, 34, 0],
              Cairo_xcb_surface_create 136 34,
              Cairo_create,
              Cairo_set_source_rgb 0 0 0,
              Cairo_paint,
              Cairo_select_font_face Cr ''DejaVu Sans Mono'',
              Cairo_set_font_size Cr 16,
              Cairo_set_source_rgb 1 1 1,
              Cairo_move_to 7 22,
              Cairo_show_text ''2024-01-15 09:05:03'',
              Cairo_surface_flush,
              Cairo_destroy,
              Cairo_surface_destroy,
              Xcb_flush], ''2024-01-15 09:05:03'')
   \<and> compute_geometry default_options example_screen
         (text_extents example_io ''2024-01-15 09:05:03'') (font_extents example_io)
       = Some (\<lparr>text_w = 120, text_h = 18, pad = 8, win_w = 136, win_h = 34\<rparr>,
               \<lparr>new_x = 1776, new_y = 8\<rparr>)
   \<and> (\<exists>reqs st'. main_loop default_options example_screen
                     [example_io, example_io\<lparr>poll_ret := 1\<rparr>] initial_state
                    = Some (reqs, st')
          \<and> Cairo_paint \<in> set reqs \<and> sized_before_painted None False reqs)
   \<and> \<not> sized_before_painted None False
       [Poll 750, Cairo_xcb_surface_create 136 34, Cairo_create, Cairo_paint,
        Xcb_configure_window 79 [1776, 8, 136, 34, 0]]
   \<and> \<not> sized_before_painted None False
       [Poll 750, Xcb_configure_window 79 [1840, 8, 64, 24, 0],
        Cairo_xcb_surface_create 136 34, Cairo_create, Cairo_paint]"
proof -
  have r: "redraw default_options example_screen example_io
     = Some ([Cairo_select_font_face Measure_cr ''DejaVu Sans Mono'',
              Cairo_set_font_size Measure_cr 16,
              Xcb_configure_window 79 [1776, 8, 136, 34, 0],
              Cairo_xcb_surface_create 136 34,
              Cairo_create,
              Cairo_set_source_rgb 0 0 0,
              Cairo_paint,
              Cairo_select_font_face Cr ''DejaVu Sans Mono'',
              Cairo_set_font_size Cr 16,
              Cairo_set_source_rgb 1 1 1,
              Cairo_move_to 7 22,
              Cairo_show_text ''2024-01-15 09:05:03'',
              Cairo_surface_flush,
              Cairo_destroy,
              Cairo_surface_destroy,
              Xcb_flush], ''2024-01-15 09:05:03'')"
    by (simp add: loop_eval)
  have g: "compute_geometry default_options example_screen
         (text_extents example_io ''2024-01-15 09:05:03'') (font_extents example_io)
       = Some (\<lparr>text_w = 120, text_h = 18, pad = 8, win_w = 136, win_h = 34\<rparr>,
               \<lparr>new_x = 1776, new_y = 8\<rparr>)"
    by (simp add: loop_eval)
  have m: "main_loop default_options example_screen
             [example_io, example_io\<lparr>poll_ret := 1\<rparr>] initial_state
           = Some ([Poll 750,
              Cairo_select_font_face Measure_cr ''DejaVu Sans Mono'',
              Cairo_set_font_size Measure_cr 16,
              Xcb_configure_window 79 [1776, 8, 136, 34, 0],
              Cairo_xcb_surface_create 136 34,
              Cairo_create,
              Cairo_set_source_rgb 0 0 0,
              Cairo_paint,
              Cairo_select_font_face Cr ''DejaVu Sans Mono'',
              Cairo_set_font_size Cr 16,
              Cairo_set_source_rgb 1 1 1,
              Cairo_move_to 7 22,
              Cairo_show_text ''2024-01-15 09:05:03'',
              Cairo_surface_flush,
              Cairo_destroy,
              Cairo_surface_destroy,
              Xcb_flush,
              Poll 750],
             \<lparr>last_str = ''2024-01-15 09:05:03'', pending = []\<rparr>)"
    by (simp add: example_iteration) (simp add: loop_eval)
  have n: "\<not> sized_before_painted None False
       [Poll 750, Cairo_xcb_surface_create 136 34, Cairo_create, Cairo_paint,
        Xcb_configure_window 79 [1776, 8, 136, 34, 0]]"
    "\<not> sized_before_painted None False
       [Poll 750, Xcb_configure_window 79 [1840, 8, 64, 24, 0],
        Cairo_xcb_surface_create 136 34, Cairo_create, Cairo_paint]"
    by (simp_all add: loop_eval)
  show ?thesis
    using geometry_applied_before_painting
            [of default_options example_screen example_io initial_state
                "[example_io, example_io\<lparr>poll_ret := 1\<rparr>]"]
      r g m n
    by simp
qed

end
